theory Spec2Isabelle
  imports Main "HOL-Library.Word" "HOL-Library.List_Lexorder" "HOL-Library.AList"
begin

section \<open>Bytes and the fixed-width integers of Go\<close>

type_synonym byte = "8 word"
type_synonym bytes = "byte list"
type_synonym uint16 = "16 word"
type_synonym uint32 = "32 word"
type_synonym uint64 = "64 word"

definition MaxUint32 :: uint32 where
  "MaxUint32 = 0xFFFFFFFF"

definition MaxUint64 :: uint64 where
  "MaxUint64 = 0xFFFFFFFFFFFFFFFF"

definition MaxInt64 :: int where
  "MaxInt64 = 2 ^ 63 - 1"

definition MinInt64 :: int where
  "MinInt64 = - (2 ^ 63)"

text \<open>
  Go's \<^verbatim>\<open>int\<close> is 64 bits wide on the platforms DVID runs on. The counters of the
  scans below (\<^verbatim>\<open>rank\<close>, \<^verbatim>\<open>saved\<close>) count visited key-value pairs and stay far
  below \<open>2^63\<close>; they are HOL integers. The one sum of two caller-supplied values,
  \<^verbatim>\<open>offset+nReturns\<close>, is written with its two's-complement wrap-around.
\<close>

definition int64_add :: "int \<Rightarrow> int \<Rightarrow> int" where
  "int64_add a b =
     (let s = a + b in
      if MaxInt64 < s then s - 2 ^ 64 else if s < MinInt64 then s + 2 ^ 64 else s)"

subsection \<open>encoding/binary\<close>

text \<open>
  \<^verbatim>\<open>binary.LittleEndian\<close> and \<^verbatim>\<open>binary.BigEndian\<close> of the Go standard library.
  \<open>le_bytes n v\<close> are the \<open>n\<close> low bytes of \<open>v\<close>, least significant first (byte \<open>k\<close>
  is \<^verbatim>\<open>byte(v >> (8*k))\<close>); \<open>be_bytes n v\<close> lists the same bytes most significant
  first. \<open>le_nat\<close> and \<open>be_nat\<close> read a byte string back as a number.
\<close>

primrec le_bytes :: "nat \<Rightarrow> nat \<Rightarrow> bytes" where
  "le_bytes 0 v = []"
| "le_bytes (Suc n) v = word_of_nat v # le_bytes n (v div 256)"

primrec le_nat :: "bytes \<Rightarrow> nat" where
  "le_nat [] = 0"
| "le_nat (b # bs) = unat b + 256 * le_nat bs"

primrec be_bytes :: "nat \<Rightarrow> nat \<Rightarrow> bytes" where
  "be_bytes 0 v = []"
| "be_bytes (Suc n) v = word_of_nat (v div 256 ^ n) # be_bytes n v"

primrec be_nat :: "bytes \<Rightarrow> nat" where
  "be_nat [] = 0"
| "be_nat (b # bs) = unat b * 256 ^ length bs + be_nat bs"

definition LittleEndian_PutUint16 :: "uint16 \<Rightarrow> bytes" where
  "LittleEndian_PutUint16 v = le_bytes (Suc (Suc 0)) (unat v)"

definition LittleEndian_PutUint32 :: "uint32 \<Rightarrow> bytes" where
  "LittleEndian_PutUint32 v = le_bytes (Suc (Suc (Suc (Suc 0)))) (unat v)"

definition LittleEndian_Uint16 :: "bytes \<Rightarrow> uint16" where
  "LittleEndian_Uint16 b = word_of_nat (le_nat (take 2 b))"

definition LittleEndian_Uint32 :: "bytes \<Rightarrow> uint32" where
  "LittleEndian_Uint32 b = word_of_nat (le_nat (take 4 b))"

definition BigEndian_PutUint32 :: "uint32 \<Rightarrow> bytes" where
  "BigEndian_PutUint32 v = be_bytes (Suc (Suc (Suc (Suc 0)))) (unat v)"

definition BigEndian_PutUint64 :: "uint64 \<Rightarrow> bytes" where
  "BigEndian_PutUint64 v = be_bytes (Suc (Suc (Suc (Suc (Suc (Suc (Suc (Suc 0)))))))) (unat v)"

definition BigEndian_Uint32 :: "bytes \<Rightarrow> uint32" where
  "BigEndian_Uint32 b = word_of_nat (be_nat (take 4 b))"

definition BigEndian_Uint64 :: "bytes \<Rightarrow> uint64" where
  "BigEndian_Uint64 b = word_of_nat (be_nat (take 8 b))"

section \<open>The label-size index (datatype labelsz)\<close>

subsection \<open>Keys and the ordered store\<close>

text \<open>The index type is a \<^verbatim>\<open>uint8\<close>; a type-specific key (\<^verbatim>\<open>storage.TKey\<close>) is a byte string.\<close>

type_synonym IndexType = byte
type_synonym TKey = bytes

record LabelSize =
  Label :: uint64
  Size :: uint32

text \<open>
  One value per error the modelled code returns; the arguments are the values the message
  is formatted from. \<open>ShortCircuit\<close> is the sentinel \<^verbatim>\<open>shortCircuitErr\<close> of the scans.
  Three values stand for a call that does not return: \<open>IndexOutOfRange\<close> is the run-time
  panic of a slice write outside the slice, \<open>MakeSliceLenOutOfRange\<close> the run-time panic
  of \<^verbatim>\<open>make\<close> (``makeslice: len out of range''), and \<open>OutOfMemory\<close> the fatal error of
  the Go runtime when the operating system gives it no more memory.
\<close>

datatype error =
    BadTopN int
  | BadNumLabels int
  | BadValueSize IndexType uint64 nat
  | BadIteration IndexType IndexType
  | BadSizeKey TKey
  | ShortCircuit
  | IndexOutOfRange
  | MakeSliceLenOutOfRange
  | OutOfMemory
  | StoreError string
  | RoiError string
  | NotInitialized string
  | NoAssignedStore string string
  | NoAssignedLog string string error
  | DuplicateStore string string
  | BadStore string error
  | NotWriteLog string
  | NoDefaultStore
  | BadStoreAlias string string
  | BadDataSpec string
  | NotOrderedKV string
  | NoGraphSetter string
  | NoGraphGetter string
  | UnknownEngine string
  | EngineError string
  | GroupcacheError string
  | MissingSetting string
  | SettingNotString string
  | SettingNotBool string
  | OSError string
  | EOF
  | ErrUnexpectedEOF
  | ShortWrite
  | AppendLog string error
  | BadHeaderWrite string string error

text \<open>
  Modelled from the spec: the key constructors \<^verbatim>\<open>NewTypeLabelTKey\<close>,
  \<^verbatim>\<open>NewTypeSizeLabelTKey\<close> and the decoder \<^verbatim>\<open>DecodeTypeSizeLabelTKey\<close> of the labelsz
  package are called by the source but their file is missing. The spec gives
  \<open>RecKey(i, label)\<close> as tag byte \<open>R\<close>, index type, label (u64 big-endian) and
  \<open>SizeKey(i, count, label)\<close> as tag byte \<open>S\<close>, index type, \<open>u32_MAX - count\<close> (big-endian),
  label (u64 big-endian). The decoder inverts the second layout and fails on every other
  byte string.
\<close>

definition keyTypeLabel :: byte where
  "keyTypeLabel = 0x52"

definition keyTypeSizeLabel :: byte where
  "keyTypeSizeLabel = 0x53"

definition NewTypeLabelTKey :: "IndexType \<Rightarrow> uint64 \<Rightarrow> TKey" where
  "NewTypeLabelTKey i label = keyTypeLabel # i # BigEndian_PutUint64 label"

definition NewTypeSizeLabelTKey :: "IndexType \<Rightarrow> uint32 \<Rightarrow> uint64 \<Rightarrow> TKey" where
  "NewTypeSizeLabelTKey i sz label =
     keyTypeSizeLabel # i # (BigEndian_PutUint32 (MaxUint32 - sz) @ BigEndian_PutUint64 label)"

fun DecodeTypeSizeLabelTKey :: "TKey \<Rightarrow> error + (IndexType \<times> uint32 \<times> uint64)" where
  "DecodeTypeSizeLabelTKey (t # i # ibytes) =
     (if t = keyTypeSizeLabel \<and> length ibytes = 12
      then Inr (i, MaxUint32 - BigEndian_Uint32 (take 4 ibytes), BigEndian_Uint64 (drop 4 ibytes))
      else Inl (BadSizeKey (t # i # ibytes)))"
| "DecodeTypeSizeLabelTKey tk = Inl (BadSizeKey tk)"

text \<open>
  Modelled from the spec: the ordered key-value store is an external collaborator
  (\<^verbatim>\<open>storage.OrderedKeyValueDB\<close>). Under one versioned context it holds a finite map from
  type-specific keys to values, here the association list \<open>pairs\<close> (the first binding of
  a key is the stored one). \<^verbatim>\<open>Get\<close> is a point lookup that returns \<^verbatim>\<open>nil\<close> for an absent
  key; \<^verbatim>\<open>ProcessRange\<close> calls the visitor on every pair with a key in
  \<open>[kStart, kEnd]\<close> in ascending byte order and returns the first error of the visitor,
  without visiting further pairs. A store that is out of order (\<open>io_error\<close>, with the
  message of its error) fails every call with a store error.
\<close>

record OrderedKeyValueDB =
  pairs :: "(TKey \<times> bytes) list"
  io_error :: "string option"

record Chunk =
  chunk_K :: TKey
  chunk_V :: bytes

definition store_Get :: "OrderedKeyValueDB \<Rightarrow> TKey \<Rightarrow> error + bytes option" where
  "store_Get store k =
     (case io_error store of
        Some msg \<Rightarrow> Inl (StoreError msg)
      | None \<Rightarrow> Inr (map_of (pairs store) k))"

definition range_keys :: "OrderedKeyValueDB \<Rightarrow> TKey \<Rightarrow> TKey \<Rightarrow> TKey list" where
  "range_keys store kStart kEnd =
     sort (remdups (filter (\<lambda>k. kStart \<le> k \<and> k \<le> kEnd) (map fst (pairs store))))"

definition range_chunks :: "OrderedKeyValueDB \<Rightarrow> TKey \<Rightarrow> TKey \<Rightarrow> Chunk list" where
  "range_chunks store kStart kEnd =
     map (\<lambda>k. \<lparr>chunk_K = k, chunk_V = the (map_of (pairs store) k)\<rparr>)
       (range_keys store kStart kEnd)"

primrec visit_chunks ::
  "(Chunk \<Rightarrow> 's \<Rightarrow> 's \<times> error option) \<Rightarrow> Chunk list \<Rightarrow> 's \<Rightarrow> 's \<times> error option" where
  "visit_chunks f [] s = (s, None)"
| "visit_chunks f (c # cs) s =
     (case f c s of
        (s', None) \<Rightarrow> visit_chunks f cs s'
      | (s', Some err) \<Rightarrow> (s', Some err))"

definition ProcessRange ::
  "OrderedKeyValueDB \<Rightarrow> TKey \<Rightarrow> TKey \<Rightarrow> (Chunk \<Rightarrow> 's \<Rightarrow> 's \<times> error option) \<Rightarrow> 's
     \<Rightarrow> 's \<times> error option" where
  "ProcessRange store kStart kEnd f s =
     (case io_error store of
        Some msg \<Rightarrow> (s, Some (StoreError msg))
      | None \<Rightarrow> visit_chunks f (range_chunks store kStart kEnd) s)"

subsection \<open>The data instance\<close>

text \<open>
  \<^verbatim>\<open>roi.Immutable\<close> is used through \<^verbatim>\<open>VoxelWithin\<close> only: a set of voxel positions.
  A position is a 3d point of 32-bit coordinates.
\<close>

type_synonym Point3d = "int \<times> int \<times> int"
type_synonym Immutable = "Point3d \<Rightarrow> bool"

record Data =
  StaticROI :: string
  iROI :: "Immutable option"
  roiChecked :: bool
  okvdb :: "error + OrderedKeyValueDB"

definition GetOrderedKeyValueDB :: "Data \<Rightarrow> error + OrderedKeyValueDB" where
  "GetOrderedKeyValueDB d = okvdb d"

definition MaxLabelsReturned :: int where
  "MaxLabelsReturned = 10000"

subsection \<open>GetCountElementType\<close>

definition GetCountElementType :: "Data \<Rightarrow> uint64 \<Rightarrow> IndexType \<Rightarrow> error + uint32" where
  "GetCountElementType d label i =
     (case GetOrderedKeyValueDB d of
        Inl err \<Rightarrow> Inl err
      | Inr store \<Rightarrow>
          (case store_Get store (NewTypeLabelTKey i label) of
             Inl err \<Rightarrow> Inl err
           | Inr None \<Rightarrow> Inr 0
           | Inr (Some val) \<Rightarrow>
               if length val \<noteq> 4 then Inl (BadValueSize i label (length val))
               else Inr (LittleEndian_Uint32 val)))"

subsection \<open>GetTopElementType and GetLabelsByThreshold\<close>

text \<open>
  The closures passed to \<^verbatim>\<open>ProcessRange\<close> update the captured variables \<^verbatim>\<open>lsz\<close>,
  \<^verbatim>\<open>rank\<close> (and \<^verbatim>\<open>saved\<close>); here they take and return them. \<^verbatim>\<open>lsz\<close> is the slice of
  \<^verbatim>\<open>make(LabelSizes, n)\<close>, written by index; a write outside it would panic.

  \<^verbatim>\<open>make\<close> itself can fail. The Go runtime (\<^verbatim>\<open>runtime.makeslice\<close>) panics when the
  length is negative, when the size of the slice in bytes does not fit a 64-bit word, or
  when it is more than the largest allocation the runtime admits (\<open>maxAlloc\<close>, \<open>2^48\<close> bytes
  on linux/amd64); and it ends the process with a fatal error when the operating system
  does not give it the memory (\<open>free_memory\<close>, the bytes still to be had when the call is
  made). A \<^verbatim>\<open>LabelSize\<close> takes 16 bytes: a \<^verbatim>\<open>uint64\<close>, a \<^verbatim>\<open>uint32\<close> and the padding to
  the alignment of 8. The two functions that allocate take the state of the runtime as
  their first argument.
\<close>

definition zeroLabelSize :: LabelSize where
  "zeroLabelSize = \<lparr>Label = 0, Size = 0\<rparr>"

record go_runtime =
  maxAlloc :: nat
  free_memory :: nat

definition sizeof_LabelSize :: nat where
  "sizeof_LabelSize = 16"

definition make_LabelSizes :: "go_runtime \<Rightarrow> int \<Rightarrow> error + LabelSize list" where
  "make_LabelSizes rt n =
     (if n < 0 \<or> 2 ^ 64 \<le> sizeof_LabelSize * nat n \<or> maxAlloc rt < sizeof_LabelSize * nat n
      then Inl MakeSliceLenOutOfRange
      else if free_memory rt < sizeof_LabelSize * nat n then Inl OutOfMemory
      else Inr (replicate (nat n) zeroLabelSize))"

definition top_visitor ::
  "int \<Rightarrow> IndexType \<Rightarrow> Chunk \<Rightarrow> LabelSize list \<times> int
     \<Rightarrow> (LabelSize list \<times> int) \<times> error option" where
  "top_visitor n i chunk st =
     (case st of (lsz, rank) \<Rightarrow>
        (case DecodeTypeSizeLabelTKey (chunk_K chunk) of
           Inl err \<Rightarrow> (st, Some err)
         | Inr (idxType, sz, label) \<Rightarrow>
             if idxType \<noteq> i then (st, Some (BadIteration i idxType))
             else if rank < 0 \<or> int (length lsz) \<le> rank then (st, Some IndexOutOfRange)
             else
               let lsz' = lsz[nat rank := \<lparr>Label = label, Size = sz\<rparr>];
                   rank' = rank + 1
               in if n \<le> rank' then ((lsz', rank'), Some ShortCircuit)
                  else ((lsz', rank'), None)))"

definition GetTopElementType ::
  "go_runtime \<Rightarrow> Data \<Rightarrow> int \<Rightarrow> IndexType \<Rightarrow> error + LabelSize list" where
  "GetTopElementType rt d n i =
     (if n < 0 then Inl (BadTopN n)
      else if n = 0 then Inr []
      else
        (case GetOrderedKeyValueDB d of
           Inl err \<Rightarrow> Inl err
         | Inr store \<Rightarrow>
             let begTKey = NewTypeSizeLabelTKey i (MaxUint32 - 1) 0;
                 endTKey = NewTypeSizeLabelTKey i 0 MaxUint64
             in (case make_LabelSizes rt n of
                   Inl panic \<Rightarrow> Inl panic
                 | Inr lsz0 \<Rightarrow>
                     (case ProcessRange store begTKey endTKey (top_visitor n i) (lsz0, 0) of
                        ((lsz, rank), Some err) \<Rightarrow>
                          if err = ShortCircuit then Inr (take (nat rank) lsz) else Inl err
                      | ((lsz, rank), None) \<Rightarrow> Inr (take (nat rank) lsz)))))"

definition threshold_visitor ::
  "IndexType \<Rightarrow> uint32 \<Rightarrow> int \<Rightarrow> int \<Rightarrow> Chunk \<Rightarrow> LabelSize list \<times> int \<times> int
     \<Rightarrow> (LabelSize list \<times> int \<times> int) \<times> error option" where
  "threshold_visitor i minSize offset nReturns chunk st =
     (case st of (lsz, rank, saved) \<Rightarrow>
        (case DecodeTypeSizeLabelTKey (chunk_K chunk) of
           Inl err \<Rightarrow> (st, Some err)
         | Inr (idxType, sz, label) \<Rightarrow>
             if idxType \<noteq> i then (st, Some (BadIteration i idxType))
             else if sz < minSize then (st, Some ShortCircuit)
             else if offset \<le> rank \<and> rank < int64_add offset nReturns then
               (if saved < 0 \<or> int (length lsz) \<le> saved then (st, Some IndexOutOfRange)
                else
                  let lsz' = lsz[nat saved := \<lparr>Label = label, Size = sz\<rparr>];
                      saved' = saved + 1
                  in if saved' = nReturns then ((lsz', rank, saved'), Some ShortCircuit)
                     else ((lsz', rank + 1, saved'), None))
             else ((lsz, rank + 1, saved), None)))"

text \<open>
  \<^verbatim>\<open>GetLabelsByThreshold\<close> first settles \<^verbatim>\<open>nReturns\<close> (the last definition below);
  \<open>threshold_scan\<close> is the rest of its body, from \<^verbatim>\<open>d.GetOrderedKeyValueDB()\<close> on.
\<close>

definition threshold_scan ::
  "go_runtime \<Rightarrow> Data \<Rightarrow> IndexType \<Rightarrow> uint32 \<Rightarrow> int \<Rightarrow> int \<Rightarrow> error + LabelSize list" where
  "threshold_scan rt d i minSize offset nReturns =
     (case GetOrderedKeyValueDB d of
        Inl err \<Rightarrow> Inl err
      | Inr store \<Rightarrow>
          let begTKey = NewTypeSizeLabelTKey i (MaxUint32 - 1) 0;
              endTKey = NewTypeSizeLabelTKey i 0 MaxUint64
          in (case make_LabelSizes rt nReturns of
                Inl panic \<Rightarrow> Inl panic
              | Inr lsz0 \<Rightarrow>
                  (case ProcessRange store begTKey endTKey
                          (threshold_visitor i minSize offset nReturns) (lsz0, 0, 0) of
                     ((lsz, rank, saved), Some err) \<Rightarrow>
                       if err = ShortCircuit then Inr (take (nat saved) lsz) else Inl err
                   | ((lsz, rank, saved), None) \<Rightarrow> Inr (take (nat saved) lsz))))"

definition GetLabelsByThreshold ::
  "go_runtime \<Rightarrow> Data \<Rightarrow> IndexType \<Rightarrow> uint32 \<Rightarrow> int \<Rightarrow> int \<Rightarrow> error + LabelSize list" where
  "GetLabelsByThreshold rt d i minSize offset num =
     (if num = 0 then threshold_scan rt d i minSize offset MaxLabelsReturned
      else if num < 0 then Inl (BadNumLabels num)
      else threshold_scan rt d i minSize offset num)"

subsection \<open>inROI\<close>

text \<open>
  \<^verbatim>\<open>annotation.ElementPos\<close>; \<^verbatim>\<open>inROI\<close> reads its position only.
\<close>

record ElementPos =
  elem_Label :: uint64
  elem_Kind :: byte
  elem_Pos :: Point3d

text \<open>
  \<^verbatim>\<open>roi.ImmutableBySpec\<close> is an external call whose outcome can change from one call to
  the next. The parameter \<open>ImmutableBySpec k spec\<close> is the outcome of call number \<open>k\<close>
  (counted from 0) and \<open>loads\<close> counts the calls made so far, so that a retry would be
  visible. The mutex \<^verbatim>\<open>iMutex\<close> serialises the calls; they are modelled one after
  another.
\<close>

definition inROI ::
  "(nat \<Rightarrow> string \<Rightarrow> error + Immutable option) \<Rightarrow> Data \<Rightarrow> nat \<Rightarrow> ElementPos
     \<Rightarrow> bool \<times> Data \<times> nat" where
  "inROI ImmutableBySpec d loads e =
     (if StaticROI d = [] then (True, d, loads)
      else if \<not> roiChecked d then
        (case ImmutableBySpec loads (StaticROI d) of
           Inl err \<Rightarrow> (False, d\<lparr>roiChecked := True\<rparr>, Suc loads)
         | Inr r \<Rightarrow>
             (case r of
                None \<Rightarrow> (False, d\<lparr>roiChecked := True, iROI := r\<rparr>, Suc loads)
              | Some within \<Rightarrow>
                  (within (elem_Pos e), d\<lparr>roiChecked := True, iROI := r\<rparr>, Suc loads)))
      else
        (case iROI d of
           None \<Rightarrow> (False, d, loads)
         | Some within \<Rightarrow> (within (elem_Pos e), d, loads)))"

text \<open>A sequence of calls on the same data instance, with the results in call order.\<close>

primrec inROI_calls ::
  "(nat \<Rightarrow> string \<Rightarrow> error + Immutable option) \<Rightarrow> Data \<Rightarrow> nat \<Rightarrow> ElementPos list
     \<Rightarrow> bool list \<times> Data \<times> nat" where
  "inROI_calls ImmutableBySpec d loads [] = ([], d, loads)"
| "inROI_calls ImmutableBySpec d loads (e # es) =
     (case inROI ImmutableBySpec d loads e of
        (r, d', loads') \<Rightarrow>
          (case inROI_calls ImmutableBySpec d' loads' es of
             (rs, d'', loads'') \<Rightarrow> (r # rs, d'', loads'')))"

section \<open>The storage manager (package storage, local build)\<close>

type_synonym Alias = string
type_synonym InstanceName = string
type_synonym UUID = string
type_synonym TypeString = string

text \<open>
  Modelled from the spec: \<^verbatim>\<open>dvid.GetDataSpecifier\<close> is not part of the source at hand.
  The spec identifies a data instance by (name, root version), so the specifier is the
  pair.
\<close>

type_synonym DataSpecifier = "InstanceName \<times> UUID"

definition GetDataSpecifier :: "InstanceName \<Rightarrow> UUID \<Rightarrow> DataSpecifier" where
  "GetDataSpecifier name uuid = (name, uuid)"

text \<open>
  \<^verbatim>\<open>dvid.StoreConfig\<close>: the engine name and the settings of a \<^verbatim>\<open>[store.<alias>]\<close>
  table, whose values are strings, booleans or integers (\<^verbatim>\<open>interface{}\<close> in Go).
\<close>

datatype ConfigValue = StringValue string | BoolValue bool | IntValue int

record StoreConfig =
  Engine :: string
  Config :: "string \<rightharpoonup> ConfigValue"

text \<open>
  A \<^verbatim>\<open>dvid.Store\<close> is an interface value: the record holds what the manager calls or
  asks of it (its \<^verbatim>\<open>String\<close> and \<^verbatim>\<open>Equal\<close> methods and whether the type assertions to
  \<^verbatim>\<open>WriteLog\<close> and \<^verbatim>\<open>OrderedKeyValueDB\<close> succeed). A \<^verbatim>\<open>nil\<close> interface is \<open>None\<close>.
\<close>

record Store =
  store_String :: string
  store_Equal :: "StoreConfig \<Rightarrow> bool"
  store_isWriteLog :: bool
  store_isOrderedKeyValueDB :: bool

record GraphDB =
  graph_isSetter :: bool
  graph_isGetter :: bool

text \<open>
  \<^verbatim>\<open>groupcacheT\<close> is declared outside the source; the manager uses its set
  \<^verbatim>\<open>supported\<close> of data instances and hands its \<^verbatim>\<open>cache\<close> (here a handle) to
  \<^verbatim>\<open>wrapGroupcache\<close>. In \<^verbatim>\<open>managerT\<close> the field \<^verbatim>\<open>setup\<close> is named \<open>is_setup\<close>, since
  the word is reserved in Isabelle; the cached graph engine is left out (nothing modelled
  reads it).
\<close>

record groupcacheT =
  supported :: "DataSpecifier set"
  cache :: nat

record managerT =
  is_setup :: bool
  defaultKV :: "Store option"
  defaultLog :: "Store option"
  metadataStore :: "Store option"
  stores :: "(Alias \<times> Store) list"
  instanceStore :: "DataSpecifier \<rightharpoonup> Store"
  datatypeStore :: "TypeString \<rightharpoonup> Store"
  instanceLog :: "DataSpecifier \<rightharpoonup> Store"
  datatypeLog :: "TypeString \<rightharpoonup> Store"
  graphDB :: "GraphDB option"
  graphSetter :: "GraphDB option"
  graphGetter :: "GraphDB option"
  gcache :: groupcacheT

text \<open>The zero value \<^verbatim>\<open>managerT{}\<close> of the package variable \<^verbatim>\<open>manager\<close>.\<close>

definition zero_manager :: managerT where
  "zero_manager =
     \<lparr>is_setup = False, defaultKV = None, defaultLog = None, metadataStore = None,
      stores = [], instanceStore = Map.empty, datatypeStore = Map.empty,
      instanceLog = Map.empty, datatypeLog = Map.empty,
      graphDB = None, graphSetter = None, graphGetter = None,
      gcache = \<lparr>supported = {}, cache = 0\<rparr>\<rparr>"

record GroupcacheConfig =
  gc_GB :: int
  gc_Host :: string
  gc_Peers :: "string list"
  gc_Instances :: "string list"

text \<open>
  \<^verbatim>\<open>storage.Backend\<close>. Its three maps are association lists with distinct keys, in the
  order in which the Go runtime happens to iterate them (the order is not specified by the
  language, so every order is possible).
\<close>

record Backend =
  Metadata :: Alias
  DefaultLog :: Alias
  DefaultKVDB :: Alias
  Stores :: "(Alias \<times> StoreConfig) list"
  KVStore :: "(string \<times> Alias) list"
  LogStore :: "(string \<times> Alias) list"
  Groupcache :: GroupcacheConfig

text \<open>
  The functions of the package that the source calls but does not hold, and the choices
  of the runtime:
  \<^item> \<open>registry\<close>: the engine registry, from engine name to the engine's \<^verbatim>\<open>NewStore\<close>;
  \<^item> \<open>range_stores\<close>: the order in which a \<^verbatim>\<open>range\<close> over \<^verbatim>\<open>manager.stores\<close> visits it;
  \<^item> \<open>setupGroupcache\<close>, \<open>NewGraphStore\<close>, \<open>wrapGroupcache\<close>: their results.
\<close>

record storage_env =
  registry :: "string \<rightharpoonup> (StoreConfig \<Rightarrow> error + Store \<times> bool)"
  range_stores :: "(Alias \<times> Store) list \<Rightarrow> (Alias \<times> Store) list"
  setupGroupcache :: "GroupcacheConfig \<Rightarrow> groupcacheT \<Rightarrow> groupcacheT \<times> error option"
  NewGraphStore :: "Store \<Rightarrow> GraphDB option \<times> error option"
  wrapGroupcache :: "Store option \<Rightarrow> nat \<Rightarrow> Store option \<times> error option"

text \<open>
  Modelled from the spec: \<^verbatim>\<open>storage.NewStore\<close> is missing from the source. The spec's
  engine registry maps an engine name to a descriptor whose factory opens a store from a
  configuration.
\<close>

definition NewStore :: "storage_env \<Rightarrow> StoreConfig \<Rightarrow> error + Store \<times> bool" where
  "NewStore env dbconfig =
     (case registry env (Engine dbconfig) of
        None \<Rightarrow> Inl (UnknownEngine (Engine dbconfig))
      | Some engine_NewStore \<Rightarrow> engine_NewStore dbconfig)"

subsection \<open>Assigned stores and logs\<close>

definition assignedStoreByType :: "managerT \<Rightarrow> TypeString \<Rightarrow> error + Store option" where
  "assignedStoreByType manager typename =
     (if \<not> is_setup manager then Inl (NotInitialized typename)
      else
        (case datatypeStore manager typename of
           None \<Rightarrow> Inr (defaultKV manager)
         | Some store \<Rightarrow> Inr (Some store)))"

definition GetAssignedStore ::
  "storage_env \<Rightarrow> managerT \<Rightarrow> InstanceName \<Rightarrow> UUID \<Rightarrow> TypeString \<Rightarrow> error + Store option" where
  "GetAssignedStore env manager dataname root typename =
     (if \<not> is_setup manager then Inl (NotInitialized (dataname @ ''/'' @ root))
      else
        let dataid = GetDataSpecifier dataname root
        in (case (case instanceStore manager dataid of
                    Some store \<Rightarrow> Inr (Some store)
                  | None \<Rightarrow>
                      (case assignedStoreByType manager typename of
                         Inl err \<Rightarrow> Inl (NoAssignedStore dataname typename)
                       | Inr store \<Rightarrow> Inr store)) of
              Inl err \<Rightarrow> Inl err
            | Inr store \<Rightarrow>
                if dataid \<in> supported (gcache manager)
                then Inr (fst (wrapGroupcache env store (cache (gcache manager))))
                else Inr store))"

definition assignedLogByType :: "managerT \<Rightarrow> TypeString \<Rightarrow> error + Store option" where
  "assignedLogByType manager typename =
     (if \<not> is_setup manager then Inl (NotInitialized typename)
      else
        (case datatypeLog manager typename of
           None \<Rightarrow>
             (case defaultLog manager of
                None \<Rightarrow> Inr None
              | Some log \<Rightarrow> Inr (Some log))
         | Some store \<Rightarrow> Inr (Some store)))"

definition GetAssignedLog ::
  "managerT \<Rightarrow> InstanceName \<Rightarrow> UUID \<Rightarrow> TypeString \<Rightarrow> error + Store option" where
  "GetAssignedLog manager dataname root typename =
     (if \<not> is_setup manager then Inl (NotInitialized (dataname @ ''/'' @ root))
      else
        let dataid = GetDataSpecifier dataname root
        in (case instanceLog manager dataid of
              Some store \<Rightarrow> Inr (Some store)
            | None \<Rightarrow>
                (case assignedLogByType manager typename of
                   Inl err \<Rightarrow> Inl (NoAssignedLog dataname typename err)
                 | Inr store \<Rightarrow> Inr store)))"

subsection \<open>Initialize\<close>

text \<open>
  \<^verbatim>\<open>strings.Trim(s, "\"")\<close> and \<^verbatim>\<open>strings.Split(s, ":")\<close> of the Go standard library, for
  a cutset and a separator of one character.
\<close>

definition strings_Trim :: "string \<Rightarrow> char \<Rightarrow> string" where
  "strings_Trim s c = rev (dropWhile (\<lambda>x. x = c) (rev (dropWhile (\<lambda>x. x = c) s)))"

primrec strings_Split :: "string \<Rightarrow> char \<Rightarrow> string list" where
  "strings_Split [] sep = [[]]"
| "strings_Split (c # cs) sep =
     (let r = strings_Split cs sep
      in if c = sep then [] # r else (c # hd r) # tl r)"

text \<open>
  A \<^verbatim>\<open>for k, v := range m\<close> loop whose body can return an error: the body takes and
  returns the variables it changes; the first error ends the loop.
\<close>

primrec range_loop ::
  "('k \<Rightarrow> 'v \<Rightarrow> 's \<Rightarrow> 's \<times> error option) \<Rightarrow> ('k \<times> 'v) list \<Rightarrow> 's \<Rightarrow> 's \<times> error option" where
  "range_loop body [] s = (s, None)"
| "range_loop body (kv # kvs) s =
     (case body (fst kv) (snd kv) s of
        (s', None) \<Rightarrow> range_loop body kvs s'
      | (s', Some err) \<Rightarrow> (s', Some err))"

text \<open>The local variables of \<^verbatim>\<open>Initialize\<close> that its first loop changes.\<close>

record init_vars =
  gotDefault :: bool
  gotMetadata :: bool
  createdDefault :: bool
  lastCreated :: bool
  createdMetadata :: bool
  lastStore :: "Store option"

text \<open>The body of the loop over \<^verbatim>\<open>backend.Stores\<close> (opening one store).\<close>

definition open_store ::
  "storage_env \<Rightarrow> Backend \<Rightarrow> Alias \<Rightarrow> StoreConfig \<Rightarrow> managerT \<times> init_vars
     \<Rightarrow> (managerT \<times> init_vars) \<times> error option" where
  "open_store env backend a dbconfig st =
     (case st of (manager, vars) \<Rightarrow>
        (case find (\<lambda>(dbalias, db). store_Equal db dbconfig) (range_stores env (stores manager)) of
           Some (dbalias, db) \<Rightarrow> (st, Some (DuplicateStore a dbalias))
         | None \<Rightarrow>
             (case NewStore env dbconfig of
                Inl err \<Rightarrow> (st, Some (BadStore a err))
              | Inr (store, created) \<Rightarrow>
                  let st1 = (if a = Metadata backend
                             then (manager\<lparr>metadataStore := Some store\<rparr>,
                                   vars\<lparr>gotMetadata := True, createdMetadata := created\<rparr>)
                             else (manager, vars));
                      st2 = (if a = DefaultKVDB backend
                             then ((fst st1)\<lparr>defaultKV := Some store\<rparr>,
                                   (snd st1)\<lparr>gotDefault := True, createdDefault := created\<rparr>)
                             else st1)
                  in if a = DefaultLog backend \<and> \<not> store_isWriteLog store
                     then (((fst st2)\<lparr>defaultLog := None\<rparr>, snd st2),
                           Some (NotWriteLog (store_String store)))
                     else
                       let manager3 = (if a = DefaultLog backend
                                       then (fst st2)\<lparr>defaultLog := Some store\<rparr>
                                       else fst st2)
                       in ((manager3\<lparr>stores := AList.update a store (stores manager3)\<rparr>,
                            (snd st2)\<lparr>lastStore := Some store, lastCreated := created\<rparr>),
                           None))))"

text \<open>The bodies of the loops over \<^verbatim>\<open>backend.KVStore\<close> and \<^verbatim>\<open>backend.LogStore\<close>.\<close>

definition assign_store :: "string \<Rightarrow> Alias \<Rightarrow> managerT \<Rightarrow> managerT \<times> error option" where
  "assign_store dataspec a manager =
     (if dataspec = ''default'' \<or> dataspec = ''metadata'' then (manager, None)
      else
        (case map_of (stores manager) a of
           None \<Rightarrow> (manager, Some (BadStoreAlias dataspec a))
         | Some store \<Rightarrow>
             let name = strings_Trim dataspec (CHR 0x22);
                 parts = strings_Split name CHR '':''
             in if length parts = 1
                then (manager\<lparr>datatypeStore := (datatypeStore manager)(name \<mapsto> store)\<rparr>, None)
                else if length parts = 2
                then (manager\<lparr>instanceStore := (instanceStore manager)
                        (GetDataSpecifier (parts ! 0) (parts ! 1) \<mapsto> store)\<rparr>, None)
                else (manager, Some (BadDataSpec dataspec))))"

definition assign_log :: "string \<Rightarrow> Alias \<Rightarrow> managerT \<Rightarrow> managerT \<times> error option" where
  "assign_log dataspec a manager =
     (if dataspec = ''default'' then (manager, None)
      else
        (case map_of (stores manager) a of
           None \<Rightarrow> (manager, Some (BadStoreAlias dataspec a))
         | Some store \<Rightarrow>
             if \<not> store_isWriteLog store then (manager, Some (NotWriteLog (store_String store)))
             else
               let name = strings_Trim dataspec (CHR 0x22);
                   parts = strings_Split name CHR '':''
               in if length parts = 1
                  then (manager\<lparr>datatypeLog := (datatypeLog manager)(name \<mapsto> store)\<rparr>, None)
                  else if length parts = 2
                  then (manager\<lparr>instanceLog := (instanceLog manager)
                          (GetDataSpecifier (parts ! 0) (parts ! 1) \<mapsto> store)\<rparr>, None)
                  else (manager, Some (BadDataSpec dataspec))))"

text \<open>
  \<^verbatim>\<open>Initialize\<close> changes the package variable \<^verbatim>\<open>manager\<close> as it goes, also when it
  returns an error: the model returns the manager, \<^verbatim>\<open>createdMetadata\<close> and the error.
  The four definitions are its consecutive parts: setting up the graph store, the
  assignments per datatype and data instance, the defaults with the groupcache, and the
  whole function with the loop that opens the stores.
\<close>

definition Initialize_graph :: "storage_env \<Rightarrow> managerT \<Rightarrow> bool \<Rightarrow> managerT \<times> bool \<times> error option" where
  "Initialize_graph env manager created =
     (case assignedStoreByType manager ''labelgraph'' of
        Inl err \<Rightarrow> (manager, created, Some err)
      | Inr None \<Rightarrow> (manager, False, Some (NotOrderedKV ''<nil>''))
      | Inr (Some kvdb) \<Rightarrow>
          if \<not> store_isOrderedKeyValueDB kvdb
          then (manager, False, Some (NotOrderedKV (store_String kvdb)))
          else
            (case NewGraphStore env kvdb of
               (g, Some err) \<Rightarrow> (manager\<lparr>graphDB := g\<rparr>, False, Some err)
             | (g, None) \<Rightarrow>
                 (case g of
                    None \<Rightarrow>
                      (manager\<lparr>graphDB := g, graphSetter := None\<rparr>, False,
                       Some (NoGraphSetter (store_String kvdb)))
                  | Some gdb \<Rightarrow>
                      if \<not> graph_isSetter gdb
                      then (manager\<lparr>graphDB := g, graphSetter := None\<rparr>, False,
                            Some (NoGraphSetter (store_String kvdb)))
                      else if \<not> graph_isGetter gdb
                      then (manager\<lparr>graphDB := g, graphSetter := g, graphGetter := None\<rparr>, False,
                            Some (NoGraphGetter (store_String kvdb)))
                      else (manager\<lparr>graphDB := g, graphSetter := g, graphGetter := g\<rparr>,
                            created, None))))"

definition Initialize_assign :: "storage_env \<Rightarrow> Backend \<Rightarrow> managerT \<Rightarrow> bool \<Rightarrow> managerT \<times> bool \<times> error option" where
  "Initialize_assign env backend manager created =
     (case range_loop assign_store (KVStore backend)
             (manager\<lparr>instanceStore := Map.empty, datatypeStore := Map.empty\<rparr>) of
        (manager1, Some err) \<Rightarrow> (manager1, created, Some err)
      | (manager1, None) \<Rightarrow>
          (case range_loop assign_log (LogStore backend)
                  (manager1\<lparr>instanceLog := Map.empty, datatypeLog := Map.empty\<rparr>) of
             (manager2, Some err) \<Rightarrow> (manager2, created, Some err)
           | (manager2, None) \<Rightarrow> Initialize_graph env (manager2\<lparr>is_setup := True\<rparr>) created))"

definition Initialize_defaults ::
  "storage_env \<Rightarrow> Backend \<Rightarrow> managerT \<Rightarrow> init_vars \<Rightarrow> managerT \<times> bool \<times> error option" where
  "Initialize_defaults env backend manager vars =
     (if \<not> gotDefault vars \<and> length (Stores backend) \<noteq> 1
      then (manager, False, Some NoDefaultStore)
      else
        let st1 = (if \<not> gotDefault vars
                   then (manager\<lparr>defaultKV := lastStore vars\<rparr>,
                         vars\<lparr>createdDefault := lastCreated vars\<rparr>)
                   else (manager, vars));
            st2 = (if \<not> gotMetadata (snd st1)
                   then ((fst st1)\<lparr>metadataStore := defaultKV (fst st1)\<rparr>,
                         (snd st1)\<lparr>createdMetadata := createdDefault (snd st1)\<rparr>)
                   else st1)
        in (case setupGroupcache env (Groupcache backend) (gcache (fst st2)) of
              (gc, Some err) \<Rightarrow> ((fst st2)\<lparr>gcache := gc\<rparr>, createdMetadata (snd st2), Some err)
            | (gc, None) \<Rightarrow>
                Initialize_assign env backend ((fst st2)\<lparr>gcache := gc\<rparr>)
                  (createdMetadata (snd st2))))"

text \<open>The local variables at the start of \<^verbatim>\<open>Initialize\<close>: Go's zero values.\<close>

definition zero_vars :: init_vars where
  "zero_vars =
     \<lparr>gotDefault = False, gotMetadata = False, createdDefault = False,
      lastCreated = False, createdMetadata = False, lastStore = None\<rparr>"

definition Initialize :: "storage_env \<Rightarrow> Backend \<Rightarrow> managerT \<Rightarrow> managerT \<times> bool \<times> error option" where
  "Initialize env backend manager0 =
     (case range_loop (open_store env backend) (Stores backend)
             (manager0\<lparr>stores := []\<rparr>, zero_vars) of
        ((manager, vars), Some err) \<Rightarrow> (manager, False, Some err)
      | ((manager, vars), None) \<Rightarrow> Initialize_defaults env backend manager vars)"

text \<open>
  \<^verbatim>\<open>Close\<close> closes the stores of a manager that is set up and then sets the package
  variable to its zero value; closing a store changes nothing the manager holds.
\<close>

definition Close :: "managerT \<Rightarrow> managerT" where
  "Close manager = zero_manager"

section \<open>The file-based append-only log (package filelog)\<close>

text \<open>
  An open log file (\<^verbatim>\<open>flog\<close>, an \<^verbatim>\<open>os.File\<close> with a lock). The file is opened with
  \<^verbatim>\<open>O_WRONLY|O_CREATE|O_APPEND|O_SYNC\<close>: every write adds its bytes at the end of
  \<open>file_data\<close>. \<open>file_room\<close> is the number of bytes the device still takes: a write that
  does not fit stores the bytes that do and returns an error, as \<^verbatim>\<open>os.File.Write\<close> does on
  a short write.
\<close>

record flog =
  file_name :: string
  file_data :: bytes
  file_room :: nat

definition file_Write :: "flog \<Rightarrow> bytes \<Rightarrow> flog \<times> error option" where
  "file_Write f b =
     (if length b \<le> file_room f
      then (f\<lparr>file_data := file_data f @ b, file_room := file_room f - length b\<rparr>, None)
      else (f\<lparr>file_data := file_data f @ take (file_room f) b, file_room := 0\<rparr>,
            Some ShortWrite))"

text \<open>
  What the package asks of the operating system: \<^verbatim>\<open>os.TempDir\<close>, \<^verbatim>\<open>filepath.Join\<close>,
  whether \<^verbatim>\<open>os.Stat\<close> reports that a path does not exist, \<^verbatim>\<open>os.MkdirAll\<close> and
  \<^verbatim>\<open>os.OpenFile\<close> (the file as found or created, or an error).
\<close>

record os_env =
  os_TempDir :: string
  filepath_Join :: "string \<Rightarrow> string \<Rightarrow> string"
  os_IsNotExist :: "string \<Rightarrow> bool"
  os_MkdirAll :: "string \<Rightarrow> error option"
  os_OpenFile :: "string \<Rightarrow> error + flog"

definition parseConfig :: "os_env \<Rightarrow> StoreConfig \<Rightarrow> error + string \<times> bool" where
  "parseConfig os config =
     (case Config config ''path'' of
        None \<Rightarrow> Inl (MissingSetting ''path'')
      | Some (StringValue path) \<Rightarrow>
          (case Config config ''testing'' of
             None \<Rightarrow> Inr (path, False)
           | Some (BoolValue testing) \<Rightarrow>
               if testing then Inr (filepath_Join os (os_TempDir os) path, testing)
               else Inr (path, testing)
           | Some _ \<Rightarrow> Inl (SettingNotBool ''testing''))
      | Some _ \<Rightarrow> Inl (SettingNotString ''path''))"

record writeLogs =
  wl_path :: string
  wl_config :: StoreConfig
  files :: "string \<rightharpoonup> flog"

definition newWriteLogs :: "os_env \<Rightarrow> StoreConfig \<Rightarrow> error + writeLogs \<times> bool" where
  "newWriteLogs os config =
     (case parseConfig os config of
        Inl err \<Rightarrow> Inl err
      | Inr (path, testing) \<Rightarrow>
          if os_IsNotExist os path
          then (case os_MkdirAll os path of
                  Some err \<Rightarrow> Inl err
                | None \<Rightarrow> Inr (\<lparr>wl_path = path, wl_config = config, files = Map.empty\<rparr>, True))
          else Inr (\<lparr>wl_path = path, wl_config = config, files = Map.empty\<rparr>, False))"

definition writeLogs_String :: "writeLogs \<Rightarrow> string" where
  "writeLogs_String wlogs = ''write logs @ path '' @ [CHR 0x22] @ wl_path wlogs @ [CHR 0x22]"

definition writeLogs_Equal :: "os_env \<Rightarrow> writeLogs \<Rightarrow> StoreConfig \<Rightarrow> bool" where
  "writeLogs_Equal os wlogs config =
     (case parseConfig os config of
        Inl err \<Rightarrow> False
      | Inr (path, testing) \<Rightarrow> path = wl_path wlogs)"

text \<open>
  The write logs as a \<^verbatim>\<open>dvid.Store\<close>: \<^verbatim>\<open>*writeLogs\<close> has \<^verbatim>\<open>Append\<close>, so it is a
  \<^verbatim>\<open>WriteLog\<close>, and it has no key-value methods. \<open>filelog_NewStore\<close> is
  \<^verbatim>\<open>Engine.NewStore\<close>.
\<close>

definition writeLogs_Store :: "os_env \<Rightarrow> writeLogs \<Rightarrow> Store" where
  "writeLogs_Store os wlogs =
     \<lparr>store_String = writeLogs_String wlogs, store_Equal = writeLogs_Equal os wlogs,
      store_isWriteLog = True, store_isOrderedKeyValueDB = False\<rparr>"

definition filelog_NewStore :: "os_env \<Rightarrow> StoreConfig \<Rightarrow> error + Store \<times> bool" where
  "filelog_NewStore os config =
     (case newWriteLogs os config of
        Inl err \<Rightarrow> Inl err
      | Inr (wlogs, created) \<Rightarrow> Inr (writeLogs_Store os wlogs, created))"

subsection \<open>Append\<close>

text \<open>
  \<^verbatim>\<open>wlogs.files\<close> maps the key \<^verbatim>\<open>dataID + "-" + version\<close> to a pointer to the open file;
  the writes through the pointer are updates of the map's entry.
\<close>

definition log_key :: "UUID \<Rightarrow> UUID \<Rightarrow> string" where
  "log_key dataID version = dataID @ ''-'' @ version"

definition getLogFile :: "os_env \<Rightarrow> writeLogs \<Rightarrow> UUID \<Rightarrow> UUID \<Rightarrow> writeLogs \<times> (error + flog)" where
  "getLogFile os wlogs dataID version =
     (let k = log_key dataID version
      in (case files wlogs k of
            Some fl \<Rightarrow> (wlogs, Inr fl)
          | None \<Rightarrow>
              (case os_OpenFile os (filepath_Join os (wl_path wlogs) k) of
                 Inl err \<Rightarrow> (wlogs, Inl err)
               | Inr f \<Rightarrow> (wlogs\<lparr>files := (files wlogs)(k \<mapsto> f)\<rparr>, Inr f))))"

definition writeHeader :: "flog \<Rightarrow> uint16 \<Rightarrow> bytes \<Rightarrow> flog \<times> error option" where
  "writeHeader f entryType data =
     (let sz = (word_of_nat (length data) :: uint32);
          buf = LittleEndian_PutUint16 entryType @ LittleEndian_PutUint32 sz
      in file_Write f buf)"

definition Append ::
  "os_env \<Rightarrow> writeLogs \<Rightarrow> uint16 \<Rightarrow> UUID \<Rightarrow> UUID \<Rightarrow> bytes \<Rightarrow> writeLogs \<times> error option" where
  "Append os wlogs entryType dataID version p =
     (case getLogFile os wlogs dataID version of
        (wlogs1, Inl err) \<Rightarrow> (wlogs1, Some (AppendLog (writeLogs_String wlogs1) err))
      | (wlogs1, Inr fl) \<Rightarrow>
          (case writeHeader fl entryType p of
             (fl1, Some err) \<Rightarrow>
               (wlogs1\<lparr>files := (files wlogs1)(log_key dataID version \<mapsto> fl1)\<rparr>,
                Some (BadHeaderWrite dataID version err))
           | (fl1, None) \<Rightarrow>
               (case file_Write fl1 p of
                  (fl2, Some err) \<Rightarrow>
                    (wlogs1\<lparr>files := (files wlogs1)(log_key dataID version \<mapsto> fl2)\<rparr>,
                     Some (AppendLog (writeLogs_String wlogs1) err))
                | (fl2, None) \<Rightarrow>
                    (wlogs1\<lparr>files := (files wlogs1)(log_key dataID version \<mapsto> fl2)\<rparr>, None))))"

text \<open>A sequence of \<^verbatim>\<open>Append\<close> calls on one (dataID, version), with the errors in call order.\<close>

primrec Append_calls ::
  "os_env \<Rightarrow> writeLogs \<Rightarrow> UUID \<Rightarrow> UUID \<Rightarrow> (uint16 \<times> bytes) list \<Rightarrow> writeLogs \<times> error option list" where
  "Append_calls os wlogs dataID version [] = (wlogs, [])"
| "Append_calls os wlogs dataID version (r # rs) =
     (case Append os wlogs (fst r) dataID version (snd r) of
        (wlogs1, err) \<Rightarrow>
          (case Append_calls os wlogs1 dataID version rs of
             (wlogs2, errs) \<Rightarrow> (wlogs2, err # errs)))"

subsection \<open>Reading a log back\<close>

text \<open>
  \<^verbatim>\<open>readHeader\<close> reads six bytes with \<^verbatim>\<open>io.ReadFull\<close>: \<^verbatim>\<open>io.EOF\<close> when no byte is
  left, \<^verbatim>\<open>io.ErrUnexpectedEOF\<close> when fewer than six are. The file being read is the list of
  the bytes not yet read; the bytes after the header are returned with the result.
\<close>

definition readHeader :: "bytes \<Rightarrow> error + uint16 \<times> uint32 \<times> bytes" where
  "readHeader input =
     (if input = [] then Inl EOF
      else if length input < 6 then Inl ErrUnexpectedEOF
      else
        let buf = take 6 input
        in Inr (LittleEndian_Uint16 (take 2 buf), LittleEndian_Uint32 (drop 2 buf), drop 6 input))"

text \<open>
  Modelled from the spec: the source holds the header decoder but no loop that reads a
  whole log. The read-back of the spec's round trip (``read-back of the file yields the
  exact sequence of (type, length, payload) appended'') decodes a header, takes as many
  payload bytes as the header says, and goes on until the end of the file.
\<close>

function read_log :: "bytes \<Rightarrow> error + (uint16 \<times> uint32 \<times> bytes) list" where
  "read_log input =
     (case readHeader input of
        Inl err \<Rightarrow> if err = EOF then Inr [] else Inl err
      | Inr (entryType, sz, rest) \<Rightarrow>
          if length rest < unat sz then Inl ErrUnexpectedEOF
          else
            (case read_log (drop (unat sz) rest) of
               Inl err \<Rightarrow> Inl err
             | Inr recs \<Rightarrow> Inr ((entryType, sz, take (unat sz) rest) # recs)))"
  by pat_completeness auto
termination
  by (relation "measure length") (auto simp: readHeader_def split: if_splits)

declare read_log.simps [simp del]

section \<open>Functions the statements are written with\<close>

text \<open>
  The label-size entry a scan reads from one key-value pair of index type \<open>i\<close>, or the
  error it returns there; and the entries of a list of pairs in order, or the error of
  the first pair that has none.
\<close>

definition scan_entry :: "IndexType \<Rightarrow> Chunk \<Rightarrow> error + LabelSize" where
  "scan_entry i chunk =
     (case DecodeTypeSizeLabelTKey (chunk_K chunk) of
        Inl err \<Rightarrow> Inl err
      | Inr (idxType, sz, label) \<Rightarrow>
          if idxType = i then Inr \<lparr>Label = label, Size = sz\<rparr>
          else Inl (BadIteration i idxType))"

primrec scan_entries :: "IndexType \<Rightarrow> Chunk list \<Rightarrow> error + LabelSize list" where
  "scan_entries i [] = Inr []"
| "scan_entries i (c # cs) =
     (case scan_entry i c of
        Inl err \<Rightarrow> Inl err
      | Inr e \<Rightarrow>
          (case scan_entries i cs of
             Inl err \<Rightarrow> Inl err
           | Inr es \<Rightarrow> Inr (e # es)))"

text \<open>
  The number of pairs on which \<^verbatim>\<open>ProcessRange\<close> calls the visitor: it stops after the
  first pair at which the visitor returns an error.
\<close>

primrec visited :: "(Chunk \<Rightarrow> 's \<Rightarrow> 's \<times> error option) \<Rightarrow> Chunk list \<Rightarrow> 's \<Rightarrow> nat" where
  "visited f [] s = 0"
| "visited f (c # cs) s =
     (case f c s of
        (s', None) \<Rightarrow> Suc (visited f cs s')
      | (s', Some err) \<Rightarrow> Suc 0)"

text \<open>The key range both scans iterate, and the pairs of a store in it.\<close>

definition scan_begTKey :: "IndexType \<Rightarrow> TKey" where
  "scan_begTKey i = NewTypeSizeLabelTKey i (MaxUint32 - 1) 0"

definition scan_endTKey :: "IndexType \<Rightarrow> TKey" where
  "scan_endTKey i = NewTypeSizeLabelTKey i 0 MaxUint64"

definition size_chunks :: "OrderedKeyValueDB \<Rightarrow> IndexType \<Rightarrow> Chunk list" where
  "size_chunks store i = range_chunks store (scan_begTKey i) (scan_endTKey i)"

text \<open>Larger count first; for equal counts, smaller label first.\<close>

definition ranked_before :: "LabelSize \<Rightarrow> LabelSize \<Rightarrow> bool" where
  "ranked_before a b = (Size b < Size a \<or> Size a = Size b \<and> Label a < Label b)"

text \<open>
  The values the package variable \<^verbatim>\<open>manager\<close> can take: its zero value when the program
  starts, and what \<^verbatim>\<open>Initialize\<close> (with any backend, in any environment, with or without
  an error) and \<^verbatim>\<open>Close\<close> make of such a value. No other function of the package assigns
  to it.
\<close>

inductive reachable :: "managerT \<Rightarrow> bool" where
  reachable_zero: "reachable zero_manager"
| reachable_Initialize: "reachable manager \<Longrightarrow> reachable (fst (Initialize env backend manager))"
| reachable_Close: "reachable manager \<Longrightarrow> reachable (Close manager)"


text \<open>One record of a log file: entry type, payload length, payload.\<close>

definition log_record :: "uint16 \<Rightarrow> bytes \<Rightarrow> bytes" where
  "log_record entryType p =
     LittleEndian_PutUint16 entryType @ LittleEndian_PutUint32 (word_of_nat (length p)) @ p"

text \<open>
  What the log file of (dataID, version) holds when \<^verbatim>\<open>getLogFile\<close> hands it out: the
  bytes written through the open handle so far, or the bytes of the file as
  \<^verbatim>\<open>os.OpenFile\<close> finds it.
\<close>

definition opened_data :: "os_env \<Rightarrow> writeLogs \<Rightarrow> UUID \<Rightarrow> UUID \<Rightarrow> bytes" where
  "opened_data os wlogs dataID version =
     (case getLogFile os wlogs dataID version of
        (wlogs1, Inl err) \<Rightarrow> []
      | (wlogs1, Inr fl) \<Rightarrow> file_data fl)"

section \<open>Example data\<close>

text \<open>
  A small index of type 2 (PreSyn): label 7 with three elements, label 42 with two, label 9
  with one, and one pair of another index type. The record of a label holds its count as
  a little-endian \<^verbatim>\<open>uint32\<close>; the size keys have empty values.
\<close>

definition example_store :: OrderedKeyValueDB where
  "example_store =
     \<lparr>pairs = [(NewTypeSizeLabelTKey 2 2 42, []), (NewTypeLabelTKey 2 42, [2, 0, 0, 0]),
               (NewTypeSizeLabelTKey 2 3 7, []), (NewTypeLabelTKey 2 7, [3, 0, 0, 0]),
               (NewTypeSizeLabelTKey 2 1 9, []), (NewTypeSizeLabelTKey 1 5 9, [])],
      io_error = None\<rparr>"

text \<open>A Go runtime on linux/amd64 with one gibibyte of memory to give.\<close>

definition example_runtime :: go_runtime where
  "example_runtime = \<lparr>maxAlloc = 2 ^ 48, free_memory = 2 ^ 30\<rparr>"

definition example_data :: Data where
  "example_data = \<lparr>StaticROI = [], iROI = None, roiChecked = False, okvdb = Inr example_store\<rparr>"

text \<open>An index of type 2 with \<open>m\<close> labels \<open>0, \<dots>, m - 1\<close> of one element each.\<close>

definition crowded_store :: "nat \<Rightarrow> OrderedKeyValueDB" where
  "crowded_store m =
     \<lparr>pairs = map (\<lambda>l. (NewTypeSizeLabelTKey 2 1 (word_of_nat l), [])) [0..<m], io_error = None\<rparr>"

definition crowded_data :: "nat \<Rightarrow> Data" where
  "crowded_data m = \<lparr>StaticROI = [], iROI = None, roiChecked = False, okvdb = Inr (crowded_store m)\<rparr>"

text \<open>An index of type 2 in which label 5 has the count \<open>2^32 - 1\<close> and label 7 the count 3.\<close>

definition saturated_store :: OrderedKeyValueDB where
  "saturated_store =
     \<lparr>pairs = [(NewTypeSizeLabelTKey 2 MaxUint32 5, []), (NewTypeLabelTKey 2 5, [255, 255, 255, 255]),
               (NewTypeSizeLabelTKey 2 3 7, []), (NewTypeLabelTKey 2 7, [3, 0, 0, 0])],
      io_error = None\<rparr>"

definition saturated_data :: Data where
  "saturated_data = \<lparr>StaticROI = [], iROI = None, roiChecked = False, okvdb = Inr saturated_store\<rparr>"

text \<open>
  A data instance with a static ROI, before its first use, and a loader that fails on its
  first call and would succeed on every later one.
\<close>

definition roi_data :: Data where
  "roi_data = \<lparr>StaticROI = ''myroi,3f8c'', iROI = None, roiChecked = False, okvdb = Inr example_store\<rparr>"

definition failing_once :: "nat \<Rightarrow> string \<Rightarrow> error + Immutable option" where
  "failing_once k spec = (if k = 0 then Inl (RoiError spec) else Inr (Some (\<lambda>p. True)))"

definition example_elem :: "int \<Rightarrow> ElementPos" where
  "example_elem x = \<lparr>elem_Label = 7, elem_Kind = 2, elem_Pos = (x, 0, 0)\<rparr>"

text \<open>
  An environment and a backend after the example configuration of the repository: two
  key-value stores of an ordered engine, one file log; a default store and log, one store
  assigned to a datatype and one to a data instance.
\<close>

definition example_os :: os_env where
  "example_os =
     \<lparr>os_TempDir = ''/tmp'', filepath_Join = (\<lambda>a b. a @ ''/'' @ b), os_IsNotExist = (\<lambda>p. True),
      os_MkdirAll = (\<lambda>p. None),
      os_OpenFile = (\<lambda>name. Inr \<lparr>file_name = name, file_data = [], file_room = 1000\<rparr>)\<rparr>"

definition leveldb_NewStore :: "StoreConfig \<Rightarrow> error + Store \<times> bool" where
  "leveldb_NewStore config =
     (case Config config ''path'' of
        Some (StringValue path) \<Rightarrow>
          Inr (\<lparr>store_String = ''basholeveldb @ '' @ path,
                store_Equal = (\<lambda>c. Engine c = ''basholeveldb'' \<and> Config c ''path'' = Some (StringValue path)),
                store_isWriteLog = False, store_isOrderedKeyValueDB = True\<rparr>, True)
      | _ \<Rightarrow> Inl (MissingSetting ''path''))"

definition example_env :: storage_env where
  "example_env =
     \<lparr>registry = [''basholeveldb'' \<mapsto> leveldb_NewStore, ''filelog'' \<mapsto> filelog_NewStore example_os],
      range_stores = (\<lambda>xs. xs),
      setupGroupcache = (\<lambda>config gc. (gc, None)),
      NewGraphStore = (\<lambda>store. (Some \<lparr>graph_isSetter = True, graph_isGetter = True\<rparr>, None)),
      wrapGroupcache = (\<lambda>store c. (store, None))\<rparr>"

definition store_config :: "string \<Rightarrow> string \<Rightarrow> StoreConfig" where
  "store_config engine path = \<lparr>Engine = engine, Config = [''path'' \<mapsto> StringValue path]\<rparr>"

definition example_backend :: Backend where
  "example_backend =
     \<lparr>Metadata = [], DefaultLog = ''mutationlog'', DefaultKVDB = ''raid6'',
      Stores = [(''raid6'', store_config ''basholeveldb'' ''/data/dbs/basholeveldb''),
                (''ssd'', store_config ''basholeveldb'' ''/datassd/dbs/basholeveldb''),
                (''mutationlog'', store_config ''filelog'' ''/data/mutationlogs'')],
      KVStore = [(''default'', ''raid6''), (''labelblk'', ''ssd''),
                 (CHR 0x22 # ''grayscale:99ef'' @ [CHR 0x22], ''ssd'')],
      LogStore = [(''default'', ''mutationlog'')],
      Groupcache = \<lparr>gc_GB = 0, gc_Host = [], gc_Peers = [], gc_Instances = []\<rparr>\<rparr>"

definition nolog_backend :: Backend where
  "nolog_backend = example_backend\<lparr>DefaultLog := [], LogStore := []\<rparr>"



text \<open>
  The write logs as \<^verbatim>\<open>newWriteLogs\<close> makes them, a payload of \<open>2^32\<close> bytes, an operating
  system whose files take \<open>2^33\<close> bytes, and one in which every log file already holds a
  record of entry type 1 with an empty payload (the log of an earlier run of the server).
\<close>

definition example_logs :: writeLogs where
  "example_logs =
     \<lparr>wl_path = ''/data/mutationlogs'', wl_config = store_config ''filelog'' ''/data/mutationlogs'',
      files = Map.empty\<rparr>"

definition huge_payload :: bytes where
  "huge_payload = replicate (2 ^ 32) 0"

definition roomy_os :: os_env where
  "roomy_os =
     example_os\<lparr>os_OpenFile := (\<lambda>name. Inr \<lparr>file_name = name, file_data = [], file_room = 2 ^ 33\<rparr>)\<rparr>"

definition restarted_os :: os_env where
  "restarted_os =
     example_os\<lparr>os_OpenFile :=
       (\<lambda>name. Inr \<lparr>file_name = name, file_data = [1, 0, 0, 0, 0, 0], file_room = 1000\<rparr>)\<rparr>"

section \<open>Byte strings and numbers\<close>

lemma unat_byte_of_nat: "unat (word_of_nat n :: byte) = n mod 256"
  by (simp add: unat_of_nat)

lemma length_le_bytes [simp]: "length (le_bytes n v) = n"
  by (induction n arbitrary: v) auto

lemma length_be_bytes [simp]: "length (be_bytes n v) = n"
  by (induction n) auto

lemma le_nat_le_bytes: "le_nat (le_bytes n v) = v mod 256 ^ n"
proof (induction n arbitrary: v)
  case 0
  show ?case by simp
next
  case (Suc n)
  have "v mod (256 * 256 ^ n) = v mod 256 + 256 * (v div 256 mod 256 ^ n)"
    by (simp add: mod_mult2_eq)
  with Suc show ?case by (simp add: unat_byte_of_nat)
qed

lemma be_nat_be_bytes: "be_nat (be_bytes n v) = v mod 256 ^ n"
proof (induction n)
  case 0
  show ?case by simp
next
  case (Suc n)
  have "v mod (256 ^ n * 256) = v div 256 ^ n mod 256 * 256 ^ n + v mod 256 ^ n"
    by (simp add: mod_mult2_eq)
  with Suc show ?case by (simp add: unat_byte_of_nat mult.commute)
qed

lemma unat_byte_less: "unat (b :: byte) < 256"
  using unsigned_less [of b, where 'a=nat] by simp

lemma le_nat_less: "le_nat bs < 256 ^ length bs"
proof (induction bs)
  case Nil
  show ?case by simp
next
  case (Cons b bs)
  have "unat b < 256" by (rule unat_byte_less)
  moreover have "le_nat bs + 1 \<le> 256 ^ length bs" using Cons by simp
  then have "256 * (le_nat bs + 1) \<le> 256 * 256 ^ length bs" by (rule mult_le_mono2)
  ultimately show ?case by simp
qed

lemma be_nat_less: "be_nat bs < 256 ^ length bs"
proof (induction bs)
  case Nil
  show ?case by simp
next
  case (Cons b bs)
  have "unat b * 256 ^ length bs + be_nat bs < unat b * 256 ^ length bs + 256 ^ length bs"
    using Cons by simp
  also have "\<dots> = (unat b + 1) * 256 ^ length bs"
    by simp
  also have "\<dots> \<le> 256 * 256 ^ length bs"
    using unat_byte_less [of b] by (intro mult_le_mono1) simp
  finally show ?case by simp
qed

lemma le_bytes_le_nat: "le_bytes (length bs) (le_nat bs) = bs"
proof (induction bs)
  case Nil
  show ?case by simp
next
  case (Cons b bs)
  have "(word_of_nat (unat b + 256 * le_nat bs) :: byte) = b"
    by (rule word_unat_eq_iff [THEN iffD2]) (simp only: unat_byte_of_nat, simp add: unat_byte_less)
  moreover have "(unat b + 256 * le_nat bs) div 256 = le_nat bs"
    using unat_byte_less [of b] by simp
  ultimately show ?case using Cons by simp
qed

lemma be_bytes_drop_high: "be_bytes n (a * 256 ^ n + r) = be_bytes n r"
proof (induction n arbitrary: a)
  case 0
  show ?case by simp
next
  case (Suc n)
  have "a * 256 ^ Suc n + r = r + a * 256 * 256 ^ n"
    by simp
  then have "(a * 256 ^ Suc n + r) div 256 ^ n = a * 256 + r div 256 ^ n"
    by (simp only: div_mult_self1 [of "256 ^ n" r "a * 256", simplified] div_mult_self3) simp
  moreover have "(word_of_nat (a * 256 + k) :: byte) = word_of_nat k" for k
    by (rule word_of_nat_eq_iff [THEN iffD2]) (simp add: take_bit_eq_mod)
  ultimately have "(word_of_nat ((a * 256 ^ Suc n + r) div 256 ^ n) :: byte) = word_of_nat (r div 256 ^ n)"
    by (simp only:)
  moreover have "be_bytes n (a * 256 ^ Suc n + r) = be_bytes n r"
    using Suc [of "a * 256"] by (simp add: mult.assoc)
  ultimately show ?case by simp
qed

lemma be_bytes_be_nat: "be_bytes (length bs) (be_nat bs) = bs"
proof (induction bs)
  case Nil
  show ?case by simp
next
  case (Cons b bs)
  have d: "(unat b * 256 ^ length bs + be_nat bs) div 256 ^ length bs = unat b"
    using be_nat_less [of bs] by simp
  have "(word_of_nat (unat b) :: byte) = b" by simp
  moreover have "be_bytes (length bs) (unat b * 256 ^ length bs + be_nat bs) = be_bytes (length bs) (be_nat bs)"
    by (rule be_bytes_drop_high)
  ultimately show ?case using Cons d by simp
qed

lemma be_nat_inj: "length xs = length ys \<Longrightarrow> be_nat xs = be_nat ys \<Longrightarrow> xs = ys"
  by (metis be_bytes_be_nat)

lemma be_nat_less_iff: "length xs = length ys \<Longrightarrow> (xs < ys) = (be_nat xs < be_nat ys)"
proof (induction xs ys rule: list_induct2)
  case Nil
  show ?case by simp
next
  case (Cons x xs y ys)
  let ?P = "(256::nat) ^ length ys"
  have bx: "be_nat xs < ?P" using be_nat_less [of xs] Cons.hyps by simp
  have by': "be_nat ys < ?P" by (rule be_nat_less)
  have lt: "unat a * ?P + be_nat as < unat b * ?P + be_nat bs"
    if "a < b" "be_nat as < ?P" for a b :: byte and as bs
  proof -
    from that(1) have "unat a + 1 \<le> unat b" by (simp add: word_less_nat_alt)
    then have "(unat a + 1) * ?P \<le> unat b * ?P" by (rule mult_le_mono1)
    with that(2) show ?thesis by simp
  qed
  consider "x < y" | "x = y" | "y < x" by (rule linorder_cases)
  then show ?case
  proof cases
    case 1
    with lt [OF 1 bx] Cons.hyps show ?thesis by simp
  next
    case 2
    with Cons show ?thesis by simp
  next
    case 3
    from lt [OF 3 by', of xs] have "\<not> be_nat (x # xs) < be_nat (y # ys)"
      using Cons.hyps by simp
    with 3 show ?thesis by auto
  qed
qed

lemma be_nat_le_iff: "length xs = length ys \<Longrightarrow> (xs \<le> ys) = (be_nat xs \<le> be_nat ys)"
  using be_nat_less_iff [of ys xs] by (simp add: not_less [symmetric])


lemma append_less_iff:
  "length xs = length ys \<Longrightarrow> (xs @ us < ys @ vs) = (xs < ys \<or> xs = ys \<and> us < (vs :: 'a :: linorder list))"
  by (induction xs ys rule: list_induct2) auto

lemma append_le_iff:
  "length xs = length ys \<Longrightarrow> (xs @ us \<le> ys @ vs) = (xs < ys \<or> xs = ys \<and> us \<le> (vs :: 'a :: linorder list))"
  by (induction xs ys rule: list_induct2) auto

lemma unat_uint32_less: "unat (w :: uint32) < 4294967296"
  using unsigned_less [of w, where 'a = nat] by simp

lemma unat_uint64_less: "unat (w :: uint64) < 18446744073709551616"
  using unsigned_less [of w, where 'a = nat] by simp

lemma length_BigEndian_PutUint32 [simp]: "length (BigEndian_PutUint32 v) = 4"
  by (simp add: BigEndian_PutUint32_def)

lemma length_BigEndian_PutUint64 [simp]: "length (BigEndian_PutUint64 v) = 8"
  by (simp add: BigEndian_PutUint64_def)

lemma be_nat_PutUint32: "be_nat (BigEndian_PutUint32 v) = unat v"
  unfolding BigEndian_PutUint32_def be_nat_be_bytes using unat_uint32_less [of v] by simp

lemma be_nat_PutUint64: "be_nat (BigEndian_PutUint64 v) = unat v"
  unfolding BigEndian_PutUint64_def be_nat_be_bytes using unat_uint64_less [of v] by simp

lemma BigEndian_Uint32_PutUint32 [simp]: "BigEndian_Uint32 (BigEndian_PutUint32 v) = v"
  by (simp add: BigEndian_Uint32_def be_nat_PutUint32)

lemma BigEndian_Uint64_PutUint64 [simp]: "BigEndian_Uint64 (BigEndian_PutUint64 v) = v"
  by (simp add: BigEndian_Uint64_def be_nat_PutUint64)

lemma be_nat_less_4: "length b = 4 \<Longrightarrow> be_nat b < 4294967296"
  using be_nat_less [of b] by simp

lemma be_nat_less_8: "length b = 8 \<Longrightarrow> be_nat b < 18446744073709551616"
  using be_nat_less [of b] by simp

lemma unat_of_be_nat_4: "length b = 4 \<Longrightarrow> unat (word_of_nat (be_nat b) :: uint32) = be_nat b"
  using be_nat_less_4 [of b] by (simp add: unat_of_nat)

lemma unat_of_be_nat_8: "length b = 8 \<Longrightarrow> unat (word_of_nat (be_nat b) :: uint64) = be_nat b"
  using be_nat_less_8 [of b] by (simp add: unat_of_nat)

lemma BigEndian_PutUint32_Uint32: "length b = 4 \<Longrightarrow> BigEndian_PutUint32 (BigEndian_Uint32 b) = b"
proof -
  assume len: "length b = 4"
  have "BigEndian_PutUint32 (BigEndian_Uint32 b) = be_bytes (Suc (Suc (Suc (Suc 0)))) (be_nat b)"
    unfolding BigEndian_PutUint32_def BigEndian_Uint32_def using len
    by (simp only: unat_of_be_nat_4 take_all order_refl)
  also have "Suc (Suc (Suc (Suc 0))) = length b"
    using len by simp
  finally show ?thesis by (simp only: be_bytes_be_nat)
qed

lemma BigEndian_PutUint64_Uint64: "length b = 8 \<Longrightarrow> BigEndian_PutUint64 (BigEndian_Uint64 b) = b"
proof -
  assume len: "length b = 8"
  have "BigEndian_PutUint64 (BigEndian_Uint64 b) =
      be_bytes (Suc (Suc (Suc (Suc (Suc (Suc (Suc (Suc 0)))))))) (be_nat b)"
    unfolding BigEndian_PutUint64_def BigEndian_Uint64_def using len
    by (simp only: unat_of_be_nat_8 take_all order_refl)
  also have "Suc (Suc (Suc (Suc (Suc (Suc (Suc (Suc 0))))))) = length b"
    using len by simp
  finally show ?thesis by (simp only: be_bytes_be_nat)
qed

lemma PutUint32_less_iff: "(BigEndian_PutUint32 a < BigEndian_PutUint32 b) = (a < b)"
  by (simp add: be_nat_less_iff be_nat_PutUint32 word_less_nat_alt)

lemma PutUint64_less_iff: "(BigEndian_PutUint64 a < BigEndian_PutUint64 b) = (a < b)"
  by (simp add: be_nat_less_iff be_nat_PutUint64 word_less_nat_alt)

lemma PutUint64_le_iff: "(BigEndian_PutUint64 a \<le> BigEndian_PutUint64 b) = (a \<le> b)"
  by (simp add: be_nat_le_iff be_nat_PutUint64 word_le_nat_alt)

lemma PutUint32_inj: "(BigEndian_PutUint32 a = BigEndian_PutUint32 b) = (a = b)"
  by (metis BigEndian_Uint32_PutUint32)

lemma PutUint64_inj: "(BigEndian_PutUint64 a = BigEndian_PutUint64 b) = (a = b)"
  by (metis BigEndian_Uint64_PutUint64)

lemma unat_MaxUint32_minus: "unat (MaxUint32 - x) = 4294967295 - unat x"
proof -
  have "x \<le> MaxUint32"
    using unat_uint32_less [of x] by (simp add: MaxUint32_def word_le_nat_alt)
  then show ?thesis
    by (simp add: unat_sub MaxUint32_def)
qed

lemma MaxUint32_minus_less_iff: "(MaxUint32 - a < MaxUint32 - b) = (b < (a :: uint32))"
proof -
  have "unat a \<le> 4294967295" "unat b \<le> 4294967295"
    using unat_uint32_less [of a] unat_uint32_less [of b] by simp_all
  then have "(4294967295 - unat a < 4294967295 - unat b) = (unat b < unat a)"
    by linarith
  then show ?thesis
    by (simp only: word_less_nat_alt unat_MaxUint32_minus)
qed

lemma MaxUint32_minus_inj: "(MaxUint32 - a = MaxUint32 - b) = (a = (b :: uint32))"
  by auto

lemma MaxUint32_minus_minus [simp]: "MaxUint32 - (MaxUint32 - a) = (a :: uint32)"
  by simp

lemma Decode_New [simp]:
  "DecodeTypeSizeLabelTKey (NewTypeSizeLabelTKey i sz label) = Inr (i, sz, label)"
  by (simp add: NewTypeSizeLabelTKey_def)

lemma New_Decode:
  assumes "DecodeTypeSizeLabelTKey k = Inr (i, sz, label)"
  shows "k = NewTypeSizeLabelTKey i sz label"
proof -
  from assms obtain t j ibytes where k: "k = t # j # ibytes"
    by (cases k rule: DecodeTypeSizeLabelTKey.cases) auto
  with assms have t: "t = keyTypeSizeLabel" and len: "length ibytes = 12" and j: "j = i"
    and sz: "sz = MaxUint32 - BigEndian_Uint32 (take 4 ibytes)"
    and l: "label = BigEndian_Uint64 (drop 4 ibytes)"
    by (auto split: if_splits)
  have "BigEndian_PutUint32 (MaxUint32 - sz) = take 4 ibytes"
    using len by (simp add: sz BigEndian_PutUint32_Uint32)
  moreover have "BigEndian_PutUint64 label = drop 4 ibytes"
    using len by (simp add: l BigEndian_PutUint64_Uint64)
  ultimately show ?thesis
    by (simp add: k t j NewTypeSizeLabelTKey_def)
qed

lemma New_less_iff:
  "(NewTypeSizeLabelTKey i s1 l1 < NewTypeSizeLabelTKey i s2 l2) = (s2 < s1 \<or> s1 = s2 \<and> l1 < l2)"
  unfolding NewTypeSizeLabelTKey_def
  by (simp add: append_less_iff PutUint32_less_iff PutUint64_less_iff PutUint32_inj
      MaxUint32_minus_less_iff MaxUint32_minus_inj eq_commute [of s1 s2])

lemma New_le_iff:
  "(NewTypeSizeLabelTKey i s1 l1 \<le> NewTypeSizeLabelTKey i s2 l2) = (s2 < s1 \<or> s1 = s2 \<and> l1 \<le> l2)"
  unfolding NewTypeSizeLabelTKey_def
  by (simp add: append_le_iff PutUint32_less_iff PutUint64_le_iff PutUint32_inj
      MaxUint32_minus_less_iff MaxUint32_minus_inj eq_commute [of s1 s2])

lemma New_inj:
  "(NewTypeSizeLabelTKey i s1 l1 = NewTypeSizeLabelTKey j s2 l2) = (i = j \<and> s1 = s2 \<and> l1 = l2)"
  by (metis Decode_New Inr_inject prod.inject)


lemma New_in_range_iff:
  "(scan_begTKey i \<le> NewTypeSizeLabelTKey j sz label \<and> NewTypeSizeLabelTKey j sz label \<le> scan_endTKey i)
     = (j = i \<and> sz \<noteq> MaxUint32)"
proof (cases "j = i")
  case False
  then show ?thesis
    by (auto simp add: scan_begTKey_def scan_endTKey_def NewTypeSizeLabelTKey_def)
next
  case True
  have "unat (MaxUint32 - 1) = 4294967294"
    by (simp add: MaxUint32_def)
  then have a: "(sz < MaxUint32 - 1 \<or> MaxUint32 - 1 = sz) = (sz \<noteq> MaxUint32)"
    using unat_uint32_less [of sz]
    by (auto simp add: word_less_nat_alt word_unat_eq_iff MaxUint32_def)
  have b: "label \<le> MaxUint64"
    using unat_uint64_less [of label] by (simp add: MaxUint64_def word_le_nat_alt)
  have c: "0 < sz \<or> sz = 0"
    by (simp add: word_neq_0_conv [symmetric])
  show ?thesis
    using a b c by (simp add: True scan_begTKey_def scan_endTKey_def New_le_iff)
qed

lemma in_range_Decode:
  assumes "scan_begTKey i \<le> k" "k \<le> scan_endTKey i" "DecodeTypeSizeLabelTKey k = Inr (j, sz, label)"
  shows "j = i \<and> sz \<noteq> MaxUint32"
  using assms New_in_range_iff [of i j sz label] New_Decode [OF assms(3)] by simp

section \<open>The scans of the label-size index\<close>

lemma scan_entry_not_ShortCircuit: "scan_entry i c \<noteq> Inl ShortCircuit"
  by (cases "chunk_K c" rule: DecodeTypeSizeLabelTKey.cases)
    (auto simp add: scan_entry_def split: sum.splits if_splits)

lemma scan_entries_not_ShortCircuit: "scan_entries i cs \<noteq> Inl ShortCircuit"
  by (induction cs) (auto simp add: scan_entry_not_ShortCircuit split: sum.splits)

lemma take_Suc_update: "k < length xs \<Longrightarrow> take (Suc k) (xs[k := e]) = take k xs @ [e]"
  by (simp add: take_Suc_conv_app_nth)

lemma make_LabelSizes_slice:
  "make_LabelSizes rt n = Inr lsz0 \<Longrightarrow> lsz0 = replicate (nat n) zeroLabelSize"
  by (auto simp add: make_LabelSizes_def split: if_splits)

lemma make_LabelSizes_bound:
  assumes "make_LabelSizes rt n = Inr lsz0"
  shows "0 \<le> n \<and> n \<le> MaxInt64"
proof -
  from assms have "0 \<le> n" and "16 * nat n < 2 ^ 64"
    by (auto simp add: make_LabelSizes_def sizeof_LabelSize_def split: if_splits)
  then show ?thesis by (simp add: MaxInt64_def)
qed

lemma make_example_runtime:
  assumes "0 \<le> n" "n \<le> 1000000"
  shows "make_LabelSizes example_runtime n = Inr (replicate (nat n) zeroLabelSize)"
proof -
  from assms have "16 * nat n \<le> 16000000" by simp
  then have "\<not> (2 ^ 64 \<le> 16 * nat n)" "\<not> (2 ^ 48 < 16 * nat n)" "\<not> (2 ^ 30 < 16 * nat n)"
    by simp_all
  with assms(1) show ?thesis
    by (simp add: make_LabelSizes_def example_runtime_def sizeof_LabelSize_def)
qed

lemma top_visitor_Inl:
  "scan_entry i c = Inl err \<Longrightarrow> top_visitor n i c (lsz, rank) = ((lsz, rank), Some err)"
  by (auto simp add: top_visitor_def scan_entry_def split: sum.splits if_splits)

lemma top_visitor_Inr:
  assumes "scan_entry i c = Inr e" "0 \<le> rank" "rank < int (length lsz)"
  shows "top_visitor n i c (lsz, rank) =
     ((lsz[nat rank := e], rank + 1), if n \<le> rank + 1 then Some ShortCircuit else None)"
  using assms by (auto simp add: top_visitor_def scan_entry_def Let_def split: sum.splits if_splits)

lemma top_visit:
  assumes "0 \<le> rank" "rank < n" "length lsz = nat n"
  shows "case visit_chunks (top_visitor n i) cs (lsz, rank) of ((lsz', rank'), e) \<Rightarrow>
     (case scan_entries i (take (nat (n - rank)) cs) of
        Inl err \<Rightarrow> e = Some err
      | Inr es \<Rightarrow> (e = None \<or> e = Some ShortCircuit) \<and>
                   take (nat rank') lsz' = take (nat rank) lsz @ es)"
  using assms
proof (induction cs arbitrary: lsz rank)
  case Nil
  then show ?case by simp
next
  case (Cons c cs)
  from Cons.prems have "nat (n - rank) = Suc (nat (n - (rank + 1)))"
    by simp
  then have tk: "take (nat (n - rank)) (c # cs) = c # take (nat (n - (rank + 1))) cs"
    by simp
  show ?case
  proof (cases "scan_entry i c")
    case (Inl err)
    then show ?thesis by (simp add: tk top_visitor_Inl)
  next
    case (Inr e)
    from Cons.prems have rl: "rank < int (length lsz)" by simp
    note step = top_visitor_Inr [OF Inr Cons.prems(1) rl, of n]
    from Cons.prems have upd: "take (nat (rank + 1)) (lsz[nat rank := e]) = take (nat rank) lsz @ [e]"
      using take_Suc_update [of "nat rank" lsz e] by (simp add: nat_add_distrib)
    show ?thesis
    proof (cases "n \<le> rank + 1")
      case True
      then show ?thesis using step upd by (simp add: tk Inr)
    next
      case False
      with Cons.prems have p: "0 \<le> rank + 1" "rank + 1 < n" "length (lsz[nat rank := e]) = nat n"
        by simp_all
      from Cons.IH [OF p] show ?thesis
        using step False upd by (auto simp add: tk Inr split: prod.splits sum.splits)
    qed
  qed
qed

lemma top_visited_le:
  assumes "0 \<le> rank" "rank < n" "length lsz = nat n"
  shows "visited (top_visitor n i) cs (lsz, rank) \<le> nat (n - rank)"
  using assms
proof (induction cs arbitrary: lsz rank)
  case Nil
  then show ?case by simp
next
  case (Cons c cs)
  show ?case
  proof (cases "scan_entry i c")
    case (Inl err)
    with Cons.prems show ?thesis by (simp add: top_visitor_Inl)
  next
    case (Inr e)
    from Cons.prems have rl: "rank < int (length lsz)" by simp
    note step = top_visitor_Inr [OF Inr Cons.prems(1) rl, of n]
    show ?thesis
    proof (cases "n \<le> rank + 1")
      case True
      with Cons.prems show ?thesis using step by simp
    next
      case False
      with Cons.prems have p: "0 \<le> rank + 1" "rank + 1 < n" "length (lsz[nat rank := e]) = nat n"
        by simp_all
      from Cons.IH [OF p] False show ?thesis
        using step by simp
    qed
  qed
qed

lemma top_visit_sentinel:
  assumes "0 \<le> rank" "rank < n" "length lsz = nat n"
    and "scan_entries i (take (nat (n - rank)) cs) = Inr es"
  shows "visited (top_visitor n i) cs (lsz, rank) = length es \<and>
         snd (visit_chunks (top_visitor n i) cs (lsz, rank)) =
           (if nat (n - rank) \<le> length cs then Some ShortCircuit else None)"
  using assms
proof (induction cs arbitrary: lsz rank es)
  case Nil
  then show ?case by auto
next
  case (Cons c cs)
  from Cons.prems have "nat (n - rank) = Suc (nat (n - (rank + 1)))"
    by simp
  then have tk: "take (nat (n - rank)) (c # cs) = c # take (nat (n - (rank + 1))) cs"
    by simp
  from Cons.prems(4) obtain e es' where e: "scan_entry i c = Inr e"
    and es': "scan_entries i (take (nat (n - (rank + 1))) cs) = Inr es'" and es: "es = e # es'"
    unfolding tk by (auto split: sum.splits)
  from Cons.prems have rl: "rank < int (length lsz)" by simp
  note step = top_visitor_Inr [OF e Cons.prems(1) rl, of n]
  show ?case
  proof (cases "n \<le> rank + 1")
    case True
    with Cons.prems have "nat (n - (rank + 1)) = 0" "nat (n - rank) = 1" by simp_all
    with es' es True show ?thesis using step by simp
  next
    case False
    with Cons.prems have p: "0 \<le> rank + 1" "rank + 1 < n" "length (lsz[nat rank := e]) = nat n"
      by simp_all
    from False Cons.prems have "(nat (n - rank) \<le> length (c # cs)) = (nat (n - (rank + 1)) \<le> length cs)"
      by auto
    with Cons.IH [OF p es'] False es show ?thesis
      using step by simp
  qed
qed

lemma GetTopElementType_eq:
  assumes "1 \<le> n" "GetOrderedKeyValueDB d = Inr store" "io_error store = None"
    and "make_LabelSizes rt n = Inr lsz0"
  shows "GetTopElementType rt d n i = scan_entries i (take (nat n) (size_chunks store i))"
proof -
  let ?cs = "size_chunks store i"
  note sl = make_LabelSizes_slice [OF assms(4)]
  have len: "length (replicate (nat n) zeroLabelSize) = nat n" by simp
  from assms(1) have z: "(0::int) \<le> 0" "0 < n" by simp_all
  obtain lsz' rank' e where v:
    "visit_chunks (top_visitor n i) ?cs (replicate (nat n) zeroLabelSize, 0) = ((lsz', rank'), e)"
    by (metis surj_pair)
  from top_visit [OF z len, of i ?cs] v
  have r: "case scan_entries i (take (nat n) ?cs) of
        Inl err \<Rightarrow> e = Some err
      | Inr es \<Rightarrow> (e = None \<or> e = Some ShortCircuit) \<and> take (nat rank') lsz' = es"
    by (simp split: sum.splits)
  have g: "GetTopElementType rt d n i =
      (case e of Some err \<Rightarrow> if err = ShortCircuit then Inr (take (nat rank') lsz') else Inl err
       | None \<Rightarrow> Inr (take (nat rank') lsz'))"
    using assms v sl
    by (simp add: GetTopElementType_def ProcessRange_def size_chunks_def scan_begTKey_def
        scan_endTKey_def split: option.splits)
  show ?thesis
  proof (cases "scan_entries i (take (nat n) ?cs)")
    case (Inl err)
    with r scan_entries_not_ShortCircuit [of i "take (nat n) ?cs"] show ?thesis
      by (auto simp add: g)
  next
    case (Inr es)
    with r show ?thesis by (auto simp add: g)
  qed
qed


lemma map_chunk_K_range_chunks [simp]: "map chunk_K (range_chunks store a b) = range_keys store a b"
  by (simp add: range_chunks_def comp_def)

lemma strict_sorted_range_keys: "sorted_wrt (<) (range_keys store a b)"
  by (simp add: range_keys_def strict_sorted_iff)

lemma set_range_keys:
  "set (range_keys store a b) = {k \<in> fst ` set (pairs store). a \<le> k \<and> k \<le> b}"
  by (auto simp add: range_keys_def)

lemma scan_entry_key:
  "scan_entry i c = Inr e \<Longrightarrow> chunk_K c = NewTypeSizeLabelTKey i (Size e) (Label e)"
  by (auto simp add: scan_entry_def New_Decode split: sum.splits if_splits)

lemma scan_entries_list_all2:
  "scan_entries i cs = Inr es \<Longrightarrow> list_all2 (\<lambda>c e. scan_entry i c = Inr e) cs es"
  by (induction cs arbitrary: es) (auto split: sum.splits)

lemma scan_entries_length: "scan_entries i cs = Inr es \<Longrightarrow> length es = length cs"
  by (drule scan_entries_list_all2) (simp add: list_all2_lengthD)

lemma scan_entries_set:
  "scan_entries i cs = Inr es \<Longrightarrow> e \<in> set es \<Longrightarrow> \<exists>c \<in> set cs. scan_entry i c = Inr e"
  by (induction cs arbitrary: es) (auto split: sum.splits)

lemma scan_entries_sorted:
  "sorted_wrt (<) (map chunk_K cs) \<Longrightarrow> scan_entries i cs = Inr es \<Longrightarrow> sorted_wrt ranked_before es"
proof (induction cs arbitrary: es)
  case Nil
  then show ?case by simp
next
  case (Cons c cs)
  from Cons.prems(2) obtain e es' where e: "scan_entry i c = Inr e"
    and es': "scan_entries i cs = Inr es'" and es: "es = e # es'"
    by (auto split: sum.splits)
  have "ranked_before e e'" if "e' \<in> set es'" for e'
  proof -
    from scan_entries_set [OF es' that] obtain c' where c': "c' \<in> set cs" "scan_entry i c' = Inr e'"
      by blast
    with Cons.prems(1) have "chunk_K c < chunk_K c'" by auto
    then show ?thesis
      using scan_entry_key [OF e] scan_entry_key [OF c'(2)]
      by (simp add: New_less_iff ranked_before_def)
  qed
  moreover from Cons.prems(1) have "sorted_wrt (<) (map chunk_K cs)" by simp
  ultimately show ?case using Cons.IH es' es by simp
qed

lemma sorted_size_chunks: "sorted_wrt (<) (map chunk_K (size_chunks store i))"
  by (simp add: size_chunks_def strict_sorted_range_keys)

text \<open>
  Claim C2. For \<open>n \<ge> 1\<close>, when the store is there and in order and the slice of \<open>n\<close> entries
  is allocated, \<^verbatim>\<open>GetTopElementType\<close> returns the entries of the first \<open>n\<close> key-value
  pairs of the size-key span of index type \<open>i\<close>, taken in ascending key order (all of them
  when there are fewer): at most \<open>n\<close> entries, counts descending, equal counts in ascending
  label order. The scan short-circuits: the visitor is called on at most \<open>n\<close> pairs, on
  exactly as many pairs as entries are returned, and \<^verbatim>\<open>ProcessRange\<close> comes back with the
  sentinel error exactly when \<open>n\<close> entries have been collected.
\<close>

theorem GetTopElementType_top_n:
  assumes "1 \<le> n" and "GetOrderedKeyValueDB d = Inr store" and "io_error store = None"
    and "make_LabelSizes rt n = Inr lsz0"
  shows "GetTopElementType rt d n i = scan_entries i (take (nat n) (size_chunks store i)) \<and>
         sorted_wrt (<) (map chunk_K (size_chunks store i)) \<and>
         set (map chunk_K (size_chunks store i)) =
           {k \<in> fst ` set (pairs store). scan_begTKey i \<le> k \<and> k \<le> scan_endTKey i} \<and>
         visited (top_visitor n i) (size_chunks store i) (lsz0, 0) \<le> nat n \<and>
         (\<forall>lsz. GetTopElementType rt d n i = Inr lsz \<longrightarrow>
            length lsz = min (nat n) (length (size_chunks store i)) \<and>
            sorted_wrt ranked_before lsz \<and>
            visited (top_visitor n i) (size_chunks store i) (lsz0, 0) = length lsz \<and>
            snd (ProcessRange store (scan_begTKey i) (scan_endTKey i) (top_visitor n i) (lsz0, 0)) =
              (if length lsz = nat n then Some ShortCircuit else None))"
proof -
  let ?cs = "size_chunks store i"
  note eq = GetTopElementType_eq [OF assms, of i]
  note sl = make_LabelSizes_slice [OF assms(4)]
  from assms(1) sl have p: "(0::int) \<le> 0" "0 < n" "length lsz0 = nat n"
    by simp_all
  have srt: "sorted_wrt (<) (map chunk_K (take (nat n) ?cs))"
    using sorted_size_chunks [of store i] by (simp add: take_map [symmetric] sorted_wrt_take)
  have vis: "visited (top_visitor n i) ?cs (lsz0, 0) \<le> nat n"
    using top_visited_le [OF p, of i ?cs] by simp
  have pr: "ProcessRange store (scan_begTKey i) (scan_endTKey i) (top_visitor n i) (lsz0, 0) =
      visit_chunks (top_visitor n i) ?cs (lsz0, 0)"
    using assms(3) by (simp add: ProcessRange_def size_chunks_def)
  have "length lsz = min (nat n) (length ?cs) \<and> sorted_wrt ranked_before lsz \<and>
      visited (top_visitor n i) ?cs (lsz0, 0) = length lsz \<and>
      snd (ProcessRange store (scan_begTKey i) (scan_endTKey i) (top_visitor n i) (lsz0, 0)) =
        (if length lsz = nat n then Some ShortCircuit else None)"
    if "GetTopElementType rt d n i = Inr lsz" for lsz
  proof -
    from that eq have es: "scan_entries i (take (nat (n - 0)) ?cs) = Inr lsz" by simp
    then have len: "length lsz = min (nat n) (length ?cs)"
      using scan_entries_length [of i "take (nat n) ?cs" lsz] by (simp add: min.commute)
    from es have "sorted_wrt ranked_before lsz"
      using scan_entries_sorted [OF srt, of i lsz] by simp
    moreover from len have "(nat (n - 0) \<le> length ?cs) = (length lsz = nat n)"
      by auto
    ultimately show ?thesis
      using top_visit_sentinel [OF p es] len pr by simp
  qed
  then show ?thesis
    using eq vis sorted_size_chunks [of store i]
      set_range_keys [of store "scan_begTKey i" "scan_endTKey i"]
    by (simp add: size_chunks_def)
qed

lemmas key_eval = NewTypeSizeLabelTKey_def NewTypeLabelTKey_def BigEndian_PutUint32_def
  BigEndian_PutUint64_def MaxUint32_def MaxUint64_def keyTypeSizeLabel_def keyTypeLabel_def
  scan_begTKey_def scan_endTKey_def


lemma unat_LittleEndian_Uint32: "length val = 4 \<Longrightarrow> unat (LittleEndian_Uint32 val) = le_nat val"
  using le_nat_less [of val] by (simp add: LittleEndian_Uint32_def unat_of_nat)

lemma LittleEndian_PutUint32_Uint32:
  "length val = 4 \<Longrightarrow> LittleEndian_PutUint32 (LittleEndian_Uint32 val) = val"
proof -
  assume len: "length val = 4"
  have "LittleEndian_PutUint32 (LittleEndian_Uint32 val) = le_bytes (Suc (Suc (Suc (Suc 0)))) (le_nat val)"
    unfolding LittleEndian_PutUint32_def using len by (simp only: unat_LittleEndian_Uint32)
  also have "Suc (Suc (Suc (Suc 0))) = length val"
    using len by simp
  finally show ?thesis by (simp only: le_bytes_le_nat)
qed

text \<open>
  Claim C3. When the store is there and its \<^verbatim>\<open>Get\<close> succeeds, \<^verbatim>\<open>GetCountElementType\<close>
  returns count 0 and no error for an absent value, an error exactly when a present value
  is not 4 bytes long, and otherwise the value read as a little-endian \<^verbatim>\<open>uint32\<close>.
\<close>

theorem GetCountElementType_result:
  assumes "GetOrderedKeyValueDB d = Inr store"
    and "store_Get store (NewTypeLabelTKey i label) = Inr v"
  shows "(v = None \<longrightarrow> GetCountElementType d label i = Inr 0) \<and>
         ((\<exists>err. GetCountElementType d label i = Inl err) = (\<exists>val. v = Some val \<and> length val \<noteq> 4)) \<and>
         (\<forall>val. v = Some val \<and> length val \<noteq> 4 \<longrightarrow>
            GetCountElementType d label i = Inl (BadValueSize i label (length val))) \<and>
         (\<forall>val. v = Some val \<and> length val = 4 \<longrightarrow>
            (\<exists>count. GetCountElementType d label i = Inr count \<and> unat count = le_nat val \<and>
               LittleEndian_PutUint32 count = val))"
  using assms
  by (cases v)
    (simp_all add: GetCountElementType_def unat_LittleEndian_Uint32 LittleEndian_PutUint32_Uint32)

theorem GetCountElementType_result_witness:
  "GetOrderedKeyValueDB example_data = Inr example_store \<and>
   store_Get example_store (NewTypeLabelTKey 2 7) = Inr (Some [3, 0, 0, 0]) \<and>
   GetCountElementType example_data 7 2 = Inr 3"
proof -
  have h1: "GetOrderedKeyValueDB example_data = Inr example_store"
    by (simp add: GetOrderedKeyValueDB_def example_data_def)
  have h2: "store_Get example_store (NewTypeLabelTKey 2 7) = Inr (Some [3, 0, 0, 0])"
    by (simp add: store_Get_def example_store_def key_eval)
  from GetCountElementType_result [OF h1 h2]
  obtain count where "GetCountElementType example_data 7 2 = Inr count" and "unat count = 3"
    by auto
  then have "GetCountElementType example_data 7 2 = Inr 3"
    by (simp add: word_unat_eq_iff)
  with h1 h2 show ?thesis by simp
qed

lemma scan_entries_example_store:
  "scan_entries 2 (take 2 (size_chunks example_store 2)) =
     Inr [\<lparr>Label = 7, Size = 3\<rparr>, \<lparr>Label = 42, Size = 2\<rparr>]"
proof -
  have "map chunk_K (size_chunks example_store 2) =
      [NewTypeSizeLabelTKey 2 3 7, NewTypeSizeLabelTKey 2 2 42, NewTypeSizeLabelTKey 2 1 9]"
    by (simp add: size_chunks_def range_chunks_def range_keys_def example_store_def key_eval)
  then obtain c1 c2 c3 where cs: "size_chunks example_store 2 = [c1, c2, c3]"
    and k: "chunk_K c1 = NewTypeSizeLabelTKey 2 3 7" "chunk_K c2 = NewTypeSizeLabelTKey 2 2 42"
    by (auto simp add: map_eq_Cons_conv)
  show ?thesis
    by (simp add: cs scan_entry_def k)
qed

lemma length_size_chunks_example_store: "length (size_chunks example_store 2) = 3"
proof -
  have "map chunk_K (size_chunks example_store 2) =
      [NewTypeSizeLabelTKey 2 3 7, NewTypeSizeLabelTKey 2 2 42, NewTypeSizeLabelTKey 2 1 9]"
    by (simp add: size_chunks_def range_chunks_def range_keys_def example_store_def key_eval)
  then have "length (map chunk_K (size_chunks example_store 2)) = 3"
    by simp
  then show ?thesis by simp
qed

theorem GetTopElementType_top_n_witness:
  "(1::int) \<le> 2 \<and> GetOrderedKeyValueDB example_data = Inr example_store \<and> io_error example_store = None \<and>
   make_LabelSizes example_runtime 2 = Inr (replicate 2 zeroLabelSize) \<and>
   GetTopElementType example_runtime example_data 2 2 =
     Inr [\<lparr>Label = 7, Size = 3\<rparr>, \<lparr>Label = 42, Size = 2\<rparr>] \<and>
   ranked_before \<lparr>Label = 7, Size = 3\<rparr> \<lparr>Label = 42, Size = 2\<rparr> \<and>
   length (size_chunks example_store 2) = 3 \<and>
   visited (top_visitor 2 2) (size_chunks example_store 2) (replicate 2 zeroLabelSize, 0) = 2 \<and>
   snd (ProcessRange example_store (scan_begTKey 2) (scan_endTKey 2) (top_visitor 2 2)
          (replicate 2 zeroLabelSize, 0)) = Some ShortCircuit"
proof -
  have h1: "(1::int) \<le> 2" by simp
  have h2: "GetOrderedKeyValueDB example_data = Inr example_store"
    by (simp add: GetOrderedKeyValueDB_def example_data_def)
  have h3: "io_error example_store = None"
    by (simp add: example_store_def)
  have h4: "make_LabelSizes example_runtime 2 = Inr (replicate 2 zeroLabelSize)"
    using make_example_runtime [of 2] by simp
  have len: "length (size_chunks example_store 2) = 3"
    using length_size_chunks_example_store .
  note t = GetTopElementType_top_n [OF h1 h2 h3 h4, of 2]
  from t have eq:
    "GetTopElementType example_runtime example_data 2 2 =
       Inr [\<lparr>Label = 7, Size = 3\<rparr>, \<lparr>Label = 42, Size = 2\<rparr>]"
    by (simp add: scan_entries_example_store)
  from t have "\<forall>lsz. GetTopElementType example_runtime example_data 2 2 = Inr lsz \<longrightarrow>
      length lsz = min (nat 2) (length (size_chunks example_store 2)) \<and> sorted_wrt ranked_before lsz \<and>
      visited (top_visitor 2 2) (size_chunks example_store 2) (replicate 2 zeroLabelSize, 0) = length lsz \<and>
      snd (ProcessRange example_store (scan_begTKey 2) (scan_endTKey 2) (top_visitor 2 2)
             (replicate 2 zeroLabelSize, 0)) = (if length lsz = nat 2 then Some ShortCircuit else None)"
    by blast
  with eq have "sorted_wrt ranked_before [\<lparr>Label = 7, Size = 3\<rparr>, \<lparr>Label = 42, Size = 2\<rparr>] \<and>
      visited (top_visitor 2 2) (size_chunks example_store 2) (replicate 2 zeroLabelSize, 0) = 2 \<and>
      snd (ProcessRange example_store (scan_begTKey 2) (scan_endTKey 2) (top_visitor 2 2)
             (replicate 2 zeroLabelSize, 0)) = Some ShortCircuit"
    by auto
  with eq h2 h3 h4 len show ?thesis by simp
qed

lemma threshold_visitor_Inl:
  "scan_entry i c = Inl err \<Longrightarrow>
   threshold_visitor i T off nR c (lsz, rank, saved) = ((lsz, rank, saved), Some err)"
  by (auto simp add: threshold_visitor_def scan_entry_def split: sum.splits if_splits)

lemma threshold_visitor_Inr:
  assumes "scan_entry i c = Inr e"
  shows "threshold_visitor i T off nR c (lsz, rank, saved) =
     (if Size e < T then ((lsz, rank, saved), Some ShortCircuit)
      else if off \<le> rank \<and> rank < int64_add off nR then
        (if saved < 0 \<or> int (length lsz) \<le> saved then ((lsz, rank, saved), Some IndexOutOfRange)
         else if saved + 1 = nR then ((lsz[nat saved := e], rank, saved + 1), Some ShortCircuit)
         else ((lsz[nat saved := e], rank + 1, saved + 1), None))
      else ((lsz, rank + 1, saved), None))"
  using assms
  by (auto simp add: threshold_visitor_def scan_entry_def Let_def split: sum.splits if_splits)

lemma int64_add_small: "MinInt64 \<le> a + b \<Longrightarrow> a + b \<le> MaxInt64 \<Longrightarrow> int64_add a b = a + b"
  by (simp add: int64_add_def Let_def)

lemma top_threshold_visit:
  assumes "0 \<le> rank" "rank < n" "n \<le> MaxInt64" "length lsz = nat n"
  shows "(case visit_chunks (top_visitor n i) cs (lsz, rank) of ((l, r), e) \<Rightarrow> (take (nat r) l, e)) =
         (case visit_chunks (threshold_visitor i 0 0 n) cs (lsz, rank, rank) of
            ((l, r, s), e) \<Rightarrow> (take (nat s) l, e))"
  using assms
proof (induction cs arbitrary: lsz rank)
  case Nil
  then show ?case by simp
next
  case (Cons c cs)
  from Cons.prems have add: "int64_add 0 n = n"
    by (simp add: int64_add_small MinInt64_def)
  show ?case
  proof (cases "scan_entry i c")
    case (Inl err)
    then show ?thesis by (simp add: top_visitor_Inl threshold_visitor_Inl)
  next
    case (Inr e)
    from Cons.prems have rl: "rank < int (length lsz)" by simp
    note t = top_visitor_Inr [OF Inr Cons.prems(1) rl, of n]
    note h = threshold_visitor_Inr [OF Inr, of 0 0 n lsz rank rank]
    show ?thesis
    proof (cases "n \<le> rank + 1")
      case True
      with Cons.prems have "rank + 1 = n" by simp
      then show ?thesis using t h Cons.prems add by simp
    next
      case False
      with Cons.prems have p: "0 \<le> rank + 1" "rank + 1 < n" "length (lsz[nat rank := e]) = nat n"
        by simp_all
      from False have "rank + 1 \<noteq> n" by simp
      then show ?thesis
        using t h Cons.prems add False Cons.IH [OF p(1) p(2) Cons.prems(3) p(3)] by simp
    qed
  qed
qed

lemma GetTopElementType_eq_GetLabelsByThreshold:
  assumes "1 \<le> n"
  shows "GetTopElementType rt d n i = GetLabelsByThreshold rt d i 0 0 n"
proof (cases "GetOrderedKeyValueDB d")
  case (Inl err)
  with assms show ?thesis
    by (simp add: GetTopElementType_def GetLabelsByThreshold_def threshold_scan_def)
next
  case (Inr store)
  show ?thesis
  proof (cases "make_LabelSizes rt n")
    case (Inl panic)
    with Inr assms show ?thesis
      by (simp add: GetTopElementType_def GetLabelsByThreshold_def threshold_scan_def)
  next
    case mk: (Inr lsz0)
    note sl = make_LabelSizes_slice [OF mk]
    from make_LabelSizes_bound [OF mk] have mx: "n \<le> MaxInt64" by simp
    show ?thesis
    proof (cases "io_error store")
      case (Some err)
      with Inr mk assms show ?thesis
        by (simp add: GetTopElementType_def GetLabelsByThreshold_def threshold_scan_def ProcessRange_def)
    next
      case None
      let ?cs = "range_chunks store (NewTypeSizeLabelTKey i (MaxUint32 - 1) 0) (NewTypeSizeLabelTKey i 0 MaxUint64)"
      from assms sl have p: "(0::int) \<le> 0" "0 < n" "length lsz0 = nat n"
        by simp_all
      note sim = top_threshold_visit [OF p(1) p(2) mx p(3), of i ?cs]
      obtain l r e where t: "visit_chunks (top_visitor n i) ?cs (lsz0, 0) = ((l, r), e)"
        by (metis surj_pair)
      obtain l' r' s' e' where h:
        "visit_chunks (threshold_visitor i 0 0 n) ?cs (lsz0, 0, 0) = ((l', r', s'), e')"
        by (metis surj_pair)
      from sim t h have "take (nat r) l = take (nat s') l'" "e = e'" by simp_all
      with Inr None mk assms t h show ?thesis
        by (simp add: GetTopElementType_def GetLabelsByThreshold_def threshold_scan_def ProcessRange_def
            split: option.splits)
    qed
  qed
qed

lemma GetTopElementType_length:
  assumes "GetTopElementType rt d n i = Inr lsz"
  shows "length lsz \<le> nat n"
proof (cases "1 \<le> n")
  case False
  with assms show ?thesis by (auto simp add: GetTopElementType_def split: if_splits)
next
  case True
  show ?thesis
  proof (cases "GetOrderedKeyValueDB d")
    case (Inl err)
    with assms True show ?thesis by (simp add: GetTopElementType_def)
  next
    case (Inr store)
    show ?thesis
    proof (cases "make_LabelSizes rt n")
      case (Inl panic)
      with Inr assms True show ?thesis by (simp add: GetTopElementType_def)
    next
      case mk: (Inr lsz0)
      show ?thesis
      proof (cases "io_error store")
        case (Some err)
        with Inr mk assms True show ?thesis
          by (auto simp add: GetTopElementType_def ProcessRange_def split: if_splits)
      next
        case None
        from GetTopElementType_eq [OF True Inr None mk, of i] assms
        have "scan_entries i (take (nat n) (size_chunks store i)) = Inr lsz" by simp
        from scan_entries_length [OF this] show ?thesis by simp
      qed
    qed
  qed
qed

lemma GetTopElementType_example:
  "GetTopElementType example_runtime example_data 2 2 =
     Inr [\<lparr>Label = 7, Size = 3\<rparr>, \<lparr>Label = 42, Size = 2\<rparr>]"
proof -
  have h1: "(1::int) \<le> 2" by simp
  have h2: "GetOrderedKeyValueDB example_data = Inr example_store"
    by (simp add: GetOrderedKeyValueDB_def example_data_def)
  have h3: "io_error example_store = None"
    by (simp add: example_store_def)
  have h4: "make_LabelSizes example_runtime 2 = Inr (replicate 2 zeroLabelSize)"
    using make_example_runtime [of 2] by simp
  from GetTopElementType_eq [OF h1 h2 h3 h4, of 2] show ?thesis
    by (simp add: scan_entries_example_store)
qed

lemma threshold_visit_entries:
  assumes "0 \<le> saved"
  shows "case visit_chunks (threshold_visitor i T off nR) cs (lsz, rank, saved) of
           ((lsz', rank', saved'), e) \<Rightarrow>
             0 \<le> saved' \<and>
             set (take (nat saved') lsz') \<subseteq>
               set (take (nat saved) lsz) \<union> {x. \<exists>c \<in> set cs. scan_entry i c = Inr x}"
  using assms
proof (induction cs arbitrary: lsz rank saved)
  case Nil
  then show ?case by simp
next
  case (Cons c cs)
  show ?case
  proof (cases "scan_entry i c")
    case (Inl err)
    with Cons.prems show ?thesis by (simp add: threshold_visitor_Inl)
  next
    case (Inr e)
    define inwin where "inwin = (off \<le> rank \<and> rank < int64_add off nR)"
    note h = threshold_visitor_Inr [OF Inr, of T off nR lsz rank saved, folded inwin_def]
    have skip: ?thesis
      if "visit_chunks (threshold_visitor i T off nR) (c # cs) (lsz, rank, saved) =
          visit_chunks (threshold_visitor i T off nR) cs (lsz, rank + 1, saved)"
      using that Cons.IH [OF Cons.prems, of lsz "rank + 1"] by (auto split: prod.splits)
    have stop: ?thesis
      if "visit_chunks (threshold_visitor i T off nR) (c # cs) (lsz, rank, saved) = ((lsz, rank, saved), e')"
      for e'
      using that Cons.prems by simp
    consider (below) "Size e < T"
      | (outside) "\<not> Size e < T" "\<not> inwin"
      | (panic) "\<not> Size e < T" "inwin" "saved < 0 \<or> int (length lsz) \<le> saved"
      | (save) "\<not> Size e < T" "inwin" "\<not> (saved < 0 \<or> int (length lsz) \<le> saved)"
      by blast
    then show ?thesis
    proof cases
      case below
      then show ?thesis using h by (intro stop) simp
    next
      case outside
      then show ?thesis using h by (intro skip) simp
    next
      case panic
      then show ?thesis using h by (intro stop) simp
    next
      case save
      then have in_range: "nat saved < length lsz" and s0: "0 \<le> saved + 1" by linarith+
      have upd: "take (nat (saved + 1)) (lsz[nat saved := e]) = take (nat saved) lsz @ [e]"
        using take_Suc_update [OF in_range, of e] save(3) by (simp add: nat_add_distrib)
      show ?thesis
      proof (cases "saved + 1 = nR")
        case True
        with save h upd s0 Inr show ?thesis by auto
      next
        case False
        with save h have
          "visit_chunks (threshold_visitor i T off nR) (c # cs) (lsz, rank, saved) =
           visit_chunks (threshold_visitor i T off nR) cs (lsz[nat saved := e], rank + 1, saved + 1)"
          by simp
        then show ?thesis
          using Cons.IH [OF s0, of "lsz[nat saved := e]" "rank + 1"] upd Inr
          by (auto split: prod.splits)
      qed
    qed
  qed
qed

lemma threshold_scan_entries:
  assumes "threshold_scan rt d i T off nR = Inr lsz" "x \<in> set lsz"
  shows "\<exists>store c. GetOrderedKeyValueDB d = Inr store \<and> c \<in> set (size_chunks store i) \<and>
           scan_entry i c = Inr x"
proof (cases "GetOrderedKeyValueDB d")
  case (Inl err)
  with assms show ?thesis by (simp add: threshold_scan_def)
next
  case (Inr store)
  show ?thesis
  proof (cases "make_LabelSizes rt nR")
    case (Inl panic)
    with Inr assms show ?thesis by (simp add: threshold_scan_def)
  next
    case mk: (Inr lsz0)
    show ?thesis
    proof (cases "io_error store")
      case (Some err)
      with Inr mk assms show ?thesis
        by (auto simp add: threshold_scan_def ProcessRange_def split: if_splits)
    next
      case None
      obtain l r s e where v:
        "visit_chunks (threshold_visitor i T off nR) (size_chunks store i) (lsz0, 0, 0) = ((l, r, s), e)"
        by (metis surj_pair)
      with Inr None mk assms(1) have "lsz = take (nat s) l"
        by (auto simp add: threshold_scan_def ProcessRange_def size_chunks_def scan_begTKey_def
            scan_endTKey_def split: option.splits if_splits)
      moreover from threshold_visit_entries [where saved = 0 and rank = 0 and i = i and T = T
          and off = off and nR = nR and cs = "size_chunks store i" and lsz = lsz0] v
      have "set (take (nat s) l) \<subseteq> {x. \<exists>c \<in> set (size_chunks store i). scan_entry i c = Inr x}"
        by simp
      ultimately show ?thesis using assms(2) Inr by auto
    qed
  qed
qed

lemma GetLabelsByThreshold_entries:
  assumes "GetLabelsByThreshold rt d i T off num = Inr lsz" "x \<in> set lsz"
  shows "\<exists>store c. GetOrderedKeyValueDB d = Inr store \<and> c \<in> set (size_chunks store i) \<and>
           scan_entry i c = Inr x"
  using assms threshold_scan_entries [of rt d i T off _ lsz x]
  by (auto simp add: GetLabelsByThreshold_def split: if_splits)

lemma GetTopElementType_entries:
  assumes "GetTopElementType rt d n i = Inr lsz" "x \<in> set lsz"
  shows "\<exists>store c. GetOrderedKeyValueDB d = Inr store \<and> c \<in> set (size_chunks store i) \<and>
           scan_entry i c = Inr x"
proof (cases "1 \<le> n")
  case False
  with assms show ?thesis by (auto simp add: GetTopElementType_def split: if_splits)
next
  case True
  show ?thesis
  proof (cases "GetOrderedKeyValueDB d")
    case (Inl err)
    with assms True show ?thesis by (simp add: GetTopElementType_def)
  next
    case (Inr store)
    show ?thesis
    proof (cases "make_LabelSizes rt n")
      case (Inl panic)
      with Inr assms True show ?thesis by (simp add: GetTopElementType_def)
    next
      case mk: (Inr lsz0)
      show ?thesis
      proof (cases "io_error store")
        case (Some err)
        with Inr mk assms True show ?thesis
          by (auto simp add: GetTopElementType_def ProcessRange_def split: if_splits)
      next
        case None
        from GetTopElementType_eq [OF True Inr None mk, of i] assms
        have "scan_entries i (take (nat n) (size_chunks store i)) = Inr lsz" by simp
        from scan_entries_set [OF this assms(2)] Inr show ?thesis
          by (auto dest: in_set_takeD)
      qed
    qed
  qed
qed

lemma size_chunk_entry:
  assumes "c \<in> set (size_chunks store i)" "scan_entry i c = Inr x"
  shows "NewTypeSizeLabelTKey i (Size x) (Label x) \<in> fst ` set (pairs store) \<and> Size x \<noteq> MaxUint32"
proof -
  from assms(1) have "chunk_K c \<in> set (range_keys store (scan_begTKey i) (scan_endTKey i))"
    by (auto simp add: size_chunks_def range_chunks_def)
  then have "chunk_K c \<in> fst ` set (pairs store)" "scan_begTKey i \<le> chunk_K c" "chunk_K c \<le> scan_endTKey i"
    by (simp_all add: set_range_keys)
  with scan_entry_key [OF assms(2)] New_in_range_iff [of i i "Size x" "Label x"] show ?thesis
    by simp
qed

text \<open>
  Claim C9. Both scans start at the size key of count \<open>2^32 - 2\<close>, and the size key of
  count \<open>2^32 - 1\<close> lies before it. So a label whose only size key of index type \<open>i\<close> is
  the one of count \<open>2^32 - 1\<close> is in no result of \<^verbatim>\<open>GetTopElementType\<close> or
  \<^verbatim>\<open>GetLabelsByThreshold\<close>.
\<close>

theorem scans_skip_MaxUint32_count:
  assumes "GetOrderedKeyValueDB d = Inr store"
    and "\<forall>sz. NewTypeSizeLabelTKey i sz label \<in> fst ` set (pairs store) \<longrightarrow> sz = MaxUint32"
  shows "\<not> (scan_begTKey i \<le> NewTypeSizeLabelTKey i MaxUint32 label) \<and>
         scan_begTKey i = NewTypeSizeLabelTKey i (MaxUint32 - 1) 0 \<and>
         (\<forall>n lsz. GetTopElementType rt d n i = Inr lsz \<longrightarrow> label \<notin> Label ` set lsz) \<and>
         (\<forall>T off num lsz. GetLabelsByThreshold rt d i T off num = Inr lsz \<longrightarrow> label \<notin> Label ` set lsz)"
proof -
  have a: "\<not> (scan_begTKey i \<le> NewTypeSizeLabelTKey i MaxUint32 label)"
    by (simp add: scan_begTKey_def New_le_iff) (simp add: MaxUint32_def)
  have b: "Label x \<noteq> label"
    if "c \<in> set (size_chunks store i)" "scan_entry i c = Inr x" for c x
    using size_chunk_entry [OF that] assms(2) by auto
  have "label \<notin> Label ` set lsz" if "GetTopElementType rt d n i = Inr lsz" for n lsz
    using GetTopElementType_entries [OF that] assms(1) b by auto
  moreover have "label \<notin> Label ` set lsz" if "GetLabelsByThreshold rt d i T off num = Inr lsz"
    for T off num lsz
    using GetLabelsByThreshold_entries [OF that] assms(1) b by auto
  ultimately show ?thesis using a by (simp add: scan_begTKey_def)
qed

lemma scan_entries_Cons_Inr:
  assumes "scan_entries i (c # cs) = Inr es"
  obtains e es' where "scan_entry i c = Inr e" "scan_entries i cs = Inr es'" "es = e # es'"
  using assms by (auto split: sum.splits)

lemma threshold_visit:
  assumes "1 \<le> nR" "0 \<le> off" "off + nR \<le> MaxInt64" "0 \<le> rank" "saved = max 0 (rank - off)"
    "saved < nR" "length lsz = nat nR" "scan_entries i cs = Inr es"
  shows "case visit_chunks (threshold_visitor i T off nR) cs (lsz, rank, saved) of
           ((lsz', rank', saved'), e) \<Rightarrow>
             (e = None \<or> e = Some ShortCircuit) \<and>
             take (nat saved') lsz' =
               take (nat saved) lsz @
               take (nat (nR - saved)) (drop (nat (off - rank)) (takeWhile (\<lambda>x. \<not> Size x < T) es))"
  using assms(4-8)
proof (induction cs arbitrary: lsz rank saved es)
  case Nil
  then show ?case by simp
next
  case (Cons c cs)
  from Cons.prems(5) obtain e es' where e: "scan_entry i c = Inr e"
    and es': "scan_entries i cs = Inr es'" and es: "es = e # es'"
    by (rule scan_entries_Cons_Inr)
  from assms(1-3) have add: "int64_add off nR = off + nR"
    by (simp add: int64_add_small MinInt64_def)
  define inwin where "inwin = (off \<le> rank \<and> rank < int64_add off nR)"
  note h = threshold_visitor_Inr [OF e, of T off nR lsz rank saved, folded inwin_def]
  let ?P = "\<lambda>x. \<not> Size x < T"
  show ?case
  proof (cases "Size e < T")
    case True
    then show ?thesis using h by (simp add: es)
  next
    case above: False
    show ?thesis
    proof (cases "off \<le> rank")
      case False
      then have "\<not> inwin" by (simp add: inwin_def)
      with above h have step:
        "visit_chunks (threshold_visitor i T off nR) (c # cs) (lsz, rank, saved) =
         visit_chunks (threshold_visitor i T off nR) cs (lsz, rank + 1, saved)"
        by simp
      from False Cons.prems have p: "0 \<le> rank + 1" "saved = max 0 (rank + 1 - off)"
        by simp_all
      from False have "nat (off - rank) = Suc (nat (off - (rank + 1)))" by simp
      then have d: "drop (nat (off - rank)) (takeWhile ?P es) =
          drop (nat (off - (rank + 1))) (takeWhile ?P es')"
        using above by (simp add: es)
      from Cons.IH [OF p Cons.prems(3) Cons.prems(4) es'] show ?thesis
        by (simp only: step d)
    next
      case True
      with Cons.prems have sv: "saved = rank - off" "0 \<le> saved" "nat saved < length lsz"
        by simp_all
      with True Cons.prems have "inwin" by (simp add: inwin_def add)
      have upd: "take (nat (saved + 1)) (lsz[nat saved := e]) = take (nat saved) lsz @ [e]"
        using take_Suc_update [OF sv(3), of e] sv(2) by (simp add: nat_add_distrib)
      from True have d0: "nat (off - rank) = 0" "nat (off - (rank + 1)) = 0" by simp_all
      from Cons.prems(3) have tk: "nat (nR - saved) = Suc (nat (nR - (saved + 1)))" by simp
      have rhs: "take (nat (nR - saved)) (drop (nat (off - rank)) (takeWhile ?P es)) =
          e # take (nat (nR - (saved + 1))) (drop (nat (off - (rank + 1))) (takeWhile ?P es'))"
        using above by (simp add: es d0 tk)
      have nopanic: "\<not> (saved < 0 \<or> int (length lsz) \<le> saved)"
        using sv by linarith
      show ?thesis
      proof (cases "saved + 1 = nR")
        case True
        with above \<open>inwin\<close> nopanic h have
          "visit_chunks (threshold_visitor i T off nR) (c # cs) (lsz, rank, saved) =
             ((lsz[nat saved := e], rank, saved + 1), Some ShortCircuit)"
          by simp
        moreover from True have "nat (nR - (saved + 1)) = 0" by simp
        ultimately show ?thesis using upd rhs by simp
      next
        case False
        with above \<open>inwin\<close> nopanic h have step:
          "visit_chunks (threshold_visitor i T off nR) (c # cs) (lsz, rank, saved) =
           visit_chunks (threshold_visitor i T off nR) cs (lsz[nat saved := e], rank + 1, saved + 1)"
          by simp
        from False True Cons.prems sv have p: "0 \<le> rank + 1" "saved + 1 = max 0 (rank + 1 - off)"
          "saved + 1 < nR" "length (lsz[nat saved := e]) = nat nR"
          by simp_all
        from Cons.IH [OF p es'] show ?thesis
          by (simp only: step rhs upd) (auto split: prod.splits)
      qed
    qed
  qed
qed

lemma threshold_scan_eq:
  assumes "1 \<le> nR" "0 \<le> off" "off + nR \<le> MaxInt64"
    and "GetOrderedKeyValueDB d = Inr store" "io_error store = None"
    and "scan_entries i (size_chunks store i) = Inr es"
    and "make_LabelSizes rt nR = Inr lsz0"
  shows "threshold_scan rt d i T off nR =
     Inr (take (nat nR) (drop (nat off) (takeWhile (\<lambda>x. \<not> Size x < T) es)))"
proof -
  note sl = make_LabelSizes_slice [OF assms(7)]
  obtain l r s e where v:
    "visit_chunks (threshold_visitor i T off nR) (size_chunks store i) (lsz0, 0, 0) = ((l, r, s), e)"
    by (metis surj_pair)
  from assms(1,2) sl have p: "(0::int) \<le> 0" "(0::int) = max 0 (0 - off)" "0 < nR"
    "length lsz0 = nat nR"
    by simp_all
  from threshold_visit [OF assms(1-3) p assms(6), of T] v
  have "(e = None \<or> e = Some ShortCircuit) \<and>
      take (nat s) l = take (nat nR) (drop (nat off) (takeWhile (\<lambda>x. \<not> Size x < T) es))"
    by simp
  with assms(4,5,7) v show ?thesis
    by (auto simp add: threshold_scan_def ProcessRange_def size_chunks_def scan_begTKey_def
        scan_endTKey_def)
qed

lemma GetLabelsByThreshold_page:
  assumes "0 \<le> off" "0 \<le> num" "off + (if num = 0 then MaxLabelsReturned else num) \<le> MaxInt64"
    and "GetOrderedKeyValueDB d = Inr store" "io_error store = None"
    and "scan_entries i (size_chunks store i) = Inr es"
    and "make_LabelSizes rt (if num = 0 then MaxLabelsReturned else num) = Inr lsz0"
  shows "GetLabelsByThreshold rt d i T off num =
     Inr (take (nat (if num = 0 then MaxLabelsReturned else num))
            (drop (nat off) (takeWhile (\<lambda>x. \<not> Size x < T) es)))"
proof (cases "num = 0")
  case True
  have "1 \<le> MaxLabelsReturned" by (simp add: MaxLabelsReturned_def)
  moreover from assms(3) True have "off + MaxLabelsReturned \<le> MaxInt64" by simp
  moreover from assms(7) True have "make_LabelSizes rt MaxLabelsReturned = Inr lsz0" by simp
  ultimately show ?thesis
    using threshold_scan_eq [OF _ assms(1) _ assms(4-6), of MaxLabelsReturned rt lsz0 T] True
    by (simp add: GetLabelsByThreshold_def)
next
  case False
  with assms(2) have "1 \<le> num" by simp
  moreover from assms(3) False have "off + num \<le> MaxInt64" by simp
  moreover from assms(7) False have "make_LabelSizes rt num = Inr lsz0" by simp
  ultimately show ?thesis
    using threshold_scan_eq [OF _ assms(1) _ assms(4-6), of num rt lsz0 T] False assms(2)
    by (simp add: GetLabelsByThreshold_def)
qed

lemma scan_entries_take:
  "scan_entries i cs = Inr es \<Longrightarrow> scan_entries i (take k cs) = Inr (take k es)"
proof (induction cs arbitrary: es k)
  case Nil
  then show ?case by auto
next
  case (Cons c cs)
  from Cons.prems obtain e es' where e: "scan_entry i c = Inr e"
    and es': "scan_entries i cs = Inr es'" and es: "es = e # es'"
    by (auto split: sum.splits)
  show ?case
  proof (cases k)
    case 0
    then show ?thesis by simp
  next
    case (Suc k')
    with Cons.IH [OF es', of k'] e es show ?thesis by simp
  qed
qed

text \<open>
  Claim C4. For every \<open>N \<ge> 1\<close> for which the slice of \<open>N\<close> entries is allocated, and
  every state of the index and the store, \<^verbatim>\<open>GetTopElementType(ctx, N, i)\<close>
  and \<^verbatim>\<open>GetLabelsByThreshold(ctx, i, 0, 0, N)\<close> return the same result (the same entries or
  the same error), so the former is the first \<open>N\<close> entries of the latter. When the store
  is there and in order and the pairs of the size-key span decode, both return the first
  \<open>N\<close> entries of the span, or all of them when there are fewer.
\<close>

theorem GetTopElementType_is_threshold_prefix:
  assumes "1 \<le> n" and "make_LabelSizes rt n = Inr lsz0"
  shows "GetTopElementType rt d n i = GetLabelsByThreshold rt d i 0 0 n \<and>
         (\<forall>lsz. GetLabelsByThreshold rt d i 0 0 n = Inr lsz \<longrightarrow>
            GetTopElementType rt d n i = Inr (take (nat n) lsz)) \<and>
         (\<forall>store es. GetOrderedKeyValueDB d = Inr store \<and> io_error store = None \<and>
              scan_entries i (size_chunks store i) = Inr es \<longrightarrow>
            GetLabelsByThreshold rt d i 0 0 n = Inr (take (nat n) es) \<and>
            GetTopElementType rt d n i = Inr (take (nat n) es) \<and>
            length (take (nat n) es) = min (nat n) (length (size_chunks store i)))"
proof -
  note eq = GetTopElementType_eq_GetLabelsByThreshold [OF assms(1), of rt d i]
  have c2: "\<forall>lsz. GetLabelsByThreshold rt d i 0 0 n = Inr lsz \<longrightarrow>
      GetTopElementType rt d n i = Inr (take (nat n) lsz)"
  proof (intro allI impI)
    fix lsz
    assume "GetLabelsByThreshold rt d i 0 0 n = Inr lsz"
    with eq have t: "GetTopElementType rt d n i = Inr lsz" by simp
    from GetTopElementType_length [OF t] have "take (nat n) lsz = lsz" by simp
    with t show "GetTopElementType rt d n i = Inr (take (nat n) lsz)" by simp
  qed
  have c3: "\<forall>store es. GetOrderedKeyValueDB d = Inr store \<and> io_error store = None \<and>
        scan_entries i (size_chunks store i) = Inr es \<longrightarrow>
      GetLabelsByThreshold rt d i 0 0 n = Inr (take (nat n) es) \<and>
      GetTopElementType rt d n i = Inr (take (nat n) es) \<and>
      length (take (nat n) es) = min (nat n) (length (size_chunks store i))"
  proof (intro allI impI)
    fix store es
    assume a: "GetOrderedKeyValueDB d = Inr store \<and> io_error store = None \<and>
        scan_entries i (size_chunks store i) = Inr es"
    then have a1: "GetOrderedKeyValueDB d = Inr store" and a2: "io_error store = None"
      and a3: "scan_entries i (size_chunks store i) = Inr es"
      by simp_all
    have t: "GetTopElementType rt d n i = Inr (take (nat n) es)"
      using GetTopElementType_eq [OF assms(1) a1 a2 assms(2), of i]
        scan_entries_take [OF a3, of "nat n"] by simp
    have l: "length (take (nat n) es) = min (nat n) (length (size_chunks store i))"
      using scan_entries_length [OF a3] by (simp add: min.commute)
    from t eq have "GetLabelsByThreshold rt d i 0 0 n = Inr (take (nat n) es)" by simp
    with t l show "GetLabelsByThreshold rt d i 0 0 n = Inr (take (nat n) es) \<and>
      GetTopElementType rt d n i = Inr (take (nat n) es) \<and>
      length (take (nat n) es) = min (nat n) (length (size_chunks store i))"
      by (intro conjI)
  qed
  show ?thesis
    by (rule conjI [OF eq conjI [OF c2 c3]])
qed

theorem GetTopElementType_is_threshold_prefix_witness:
  "(1::int) \<le> 2 \<and>
   make_LabelSizes example_runtime 2 = Inr (replicate 2 zeroLabelSize) \<and>
   GetLabelsByThreshold example_runtime example_data 2 0 0 2 =
     Inr [\<lparr>Label = 7, Size = 3\<rparr>, \<lparr>Label = 42, Size = 2\<rparr>] \<and>
   GetTopElementType example_runtime example_data 2 2 =
     Inr [\<lparr>Label = 7, Size = 3\<rparr>, \<lparr>Label = 42, Size = 2\<rparr>]"
proof -
  have h1: "(1::int) \<le> 2" by simp
  have h3: "make_LabelSizes example_runtime 2 = Inr (replicate 2 zeroLabelSize)"
    using make_example_runtime [of 2] by simp
  from GetTopElementType_is_threshold_prefix [OF h1 h3, of example_data 2]
  have "GetTopElementType example_runtime example_data 2 2 =
      GetLabelsByThreshold example_runtime example_data 2 0 0 2"
    by (rule conjunct1)
  with h3 show ?thesis by (simp add: GetTopElementType_example)
qed

lemma GetTopElementType_make_panic:
  assumes "1 \<le> n" "GetOrderedKeyValueDB d = Inr store" "make_LabelSizes rt n = Inl panic"
  shows "GetTopElementType rt d n i = Inl panic \<and> GetLabelsByThreshold rt d i T off n = Inl panic"
  using assms by (simp add: GetTopElementType_def GetLabelsByThreshold_def threshold_scan_def)

lemma make_LabelSizes_huge:
  "make_LabelSizes rt 4611686018427387904 = Inl MakeSliceLenOutOfRange"
  by (simp add: make_LabelSizes_def sizeof_LabelSize_def)

lemma scan_entries_New:
  "\<forall>c \<in> set cs. \<exists>sz label. chunk_K c = NewTypeSizeLabelTKey i sz label \<Longrightarrow>
   \<exists>es. scan_entries i cs = Inr es"
proof (induction cs)
  case Nil
  show ?case by simp
next
  case (Cons c cs)
  then obtain es sz label where "scan_entries i cs = Inr es" "chunk_K c = NewTypeSizeLabelTKey i sz label"
    by auto
  then show ?case by (simp add: scan_entry_def)
qed

lemma word64_of_nat_inj_on: "m \<le> 18446744073709551616 \<Longrightarrow> inj_on (word_of_nat :: nat \<Rightarrow> uint64) {0..<m}"
proof (rule inj_onI)
  fix x y
  assume m: "m \<le> 18446744073709551616" and x: "x \<in> {0..<m}" and y: "y \<in> {0..<m}"
    and eq: "(word_of_nat x :: uint64) = word_of_nat y"
  from eq have "unat (word_of_nat x :: uint64) = unat (word_of_nat y :: uint64)" by simp
  with m x y show "x = y" by (simp add: unat_of_nat)
qed

lemma range_keys_crowded:
  assumes "m \<le> 18446744073709551616"
  shows "length (range_keys (crowded_store m) (scan_begTKey 2) (scan_endTKey 2)) = m \<and>
         set (range_keys (crowded_store m) (scan_begTKey 2) (scan_endTKey 2)) =
           (\<lambda>l. NewTypeSizeLabelTKey 2 1 (word_of_nat l)) ` {0..<m}"
proof -
  let ?f = "\<lambda>l. NewTypeSizeLabelTKey 2 1 (word_of_nat l :: uint64)"
  let ?ks = "map ?f [0..<m]"
  have ks: "map fst (pairs (crowded_store m)) = ?ks"
    by (simp add: crowded_store_def comp_def)
  have "(1 :: uint32) \<noteq> MaxUint32" by (simp add: MaxUint32_def)
  then have inr: "scan_begTKey 2 \<le> k \<and> k \<le> scan_endTKey 2" if "k \<in> set ?ks" for k
    using that New_in_range_iff [of 2 2 1] by auto
  then have f: "filter (\<lambda>k. scan_begTKey 2 \<le> k \<and> k \<le> scan_endTKey 2) ?ks = ?ks"
    by (intro filter_True) blast
  have "inj_on ?f {0..<m}"
    using word64_of_nat_inj_on [OF assms] by (auto simp add: inj_on_def New_inj)
  then have d: "distinct ?ks"
    by (simp add: distinct_map)
  show ?thesis
    unfolding range_keys_def ks f using d by (simp add: distinct_remdups_id)
qed

lemma threshold_crowded:
  assumes "m \<le> 18446744073709551616" "1 \<le> num" "num \<le> 1000000"
  shows "\<exists>lsz. GetLabelsByThreshold example_runtime (crowded_data m) 2 0 0 num = Inr lsz \<and>
           length lsz = min (nat num) m"
proof -
  let ?cs = "size_chunks (crowded_store m) 2"
  note rk = range_keys_crowded [OF assms(1)]
  have "\<forall>c \<in> set ?cs. \<exists>sz label. chunk_K c = NewTypeSizeLabelTKey 2 sz label"
  proof
    fix c assume "c \<in> set ?cs"
    then have "chunk_K c \<in> set (range_keys (crowded_store m) (scan_begTKey 2) (scan_endTKey 2))"
      by (auto simp add: size_chunks_def range_chunks_def)
    with rk show "\<exists>sz label. chunk_K c = NewTypeSizeLabelTKey 2 sz label" by auto
  qed
  from scan_entries_New [OF this] obtain es where es: "scan_entries 2 ?cs = Inr es" ..
  from scan_entries_length [OF es] rk have len: "length es = m"
    by (simp add: size_chunks_def range_chunks_def)
  have h: "GetOrderedKeyValueDB (crowded_data m) = Inr (crowded_store m)" "io_error (crowded_store m) = None"
    by (simp_all add: GetOrderedKeyValueDB_def crowded_data_def crowded_store_def)
  from assms(2,3) have p: "(0::int) \<le> 0" "0 \<le> num"
    "0 + (if num = 0 then MaxLabelsReturned else num) \<le> MaxInt64"
    by (simp_all add: MaxInt64_def)
  from assms(2,3) have mk: "make_LabelSizes example_runtime (if num = 0 then MaxLabelsReturned else num) =
      Inr (replicate (nat num) zeroLabelSize)"
    using make_example_runtime [of num] by simp
  have "takeWhile (\<lambda>x. True) es = es"
    by (simp add: takeWhile_eq_all_conv)
  with GetLabelsByThreshold_page [OF p h es mk, of 0] assms(2) len show ?thesis
    by (simp add: min.commute)
qed

text \<open>
  Claim C1. The claim caps the number of returned records at 10,000. On an index of 10,001
  labels, \<^verbatim>\<open>GetLabelsByThreshold(ctx, i, 0, 0, 10001)\<close> returns 10,001 records: a
  positive \<^verbatim>\<open>num\<close> is taken as it is. (The rest of the claim is lemma
  \<open>GetLabelsByThreshold_page\<close>.)
\<close>

theorem GetLabelsByThreshold_exceeds_MaxLabelsReturned:
  "\<exists>lsz. GetLabelsByThreshold example_runtime (crowded_data 10001) 2 0 0 10001 = Inr lsz \<and>
         length lsz = 10001 \<and> MaxLabelsReturned < int (length lsz)"
proof -
  have "(10001 :: nat) \<le> 18446744073709551616" "(1 :: int) \<le> 10001" "(10001 :: int) \<le> 1000000"
    by simp_all
  from threshold_crowded [OF this] show ?thesis
    by (auto simp add: MaxLabelsReturned_def)
qed

lemma scan_entries_saturated_store:
  "scan_entries 2 (size_chunks saturated_store 2) = Inr [\<lparr>Label = 7, Size = 3\<rparr>]"
proof -
  have "map chunk_K (size_chunks saturated_store 2) = [NewTypeSizeLabelTKey 2 3 7]"
    by (simp add: size_chunks_def range_chunks_def range_keys_def saturated_store_def key_eval)
  then obtain c1 where cs: "size_chunks saturated_store 2 = [c1]"
    and k: "chunk_K c1 = NewTypeSizeLabelTKey 2 3 7"
    by (auto simp add: map_eq_Cons_conv)
  show ?thesis
    by (simp add: cs scan_entry_def k)
qed

theorem scans_skip_MaxUint32_count_witness:
  "GetOrderedKeyValueDB saturated_data = Inr saturated_store \<and>
   NewTypeSizeLabelTKey 2 MaxUint32 5 \<in> fst ` set (pairs saturated_store) \<and>
   GetTopElementType example_runtime saturated_data 10 2 = Inr [\<lparr>Label = 7, Size = 3\<rparr>] \<and>
   GetLabelsByThreshold example_runtime saturated_data 2 0 0 0 = Inr [\<lparr>Label = 7, Size = 3\<rparr>] \<and>
   5 \<notin> Label ` set [\<lparr>Label = 7, Size = 3\<rparr>]"
proof -
  have h1: "GetOrderedKeyValueDB saturated_data = Inr saturated_store"
    by (simp add: GetOrderedKeyValueDB_def saturated_data_def)
  have io: "io_error saturated_store = None"
    by (simp add: saturated_store_def)
  have tag: "NewTypeSizeLabelTKey i sz l \<noteq> NewTypeLabelTKey j l'" for i sz l j l'
    by (simp add: NewTypeSizeLabelTKey_def NewTypeLabelTKey_def keyTypeSizeLabel_def keyTypeLabel_def)
  have h2: "\<forall>sz. NewTypeSizeLabelTKey 2 sz 5 \<in> fst ` set (pairs saturated_store) \<longrightarrow> sz = MaxUint32"
    by (simp add: saturated_store_def New_inj tag)
  have k: "NewTypeSizeLabelTKey 2 MaxUint32 5 \<in> fst ` set (pairs saturated_store)"
    by (simp add: saturated_store_def)
  have "length (size_chunks saturated_store 2) = 1"
    using scan_entries_length [OF scan_entries_saturated_store] by simp
  have mk: "make_LabelSizes example_runtime 10 = Inr (replicate 10 zeroLabelSize)"
    using make_example_runtime [of 10] by simp
  obtain lsz0 where "make_LabelSizes example_runtime MaxLabelsReturned = Inr lsz0"
    using make_example_runtime [of MaxLabelsReturned] by (simp add: MaxLabelsReturned_def)
  then have mk': "make_LabelSizes example_runtime (if (0::int) = 0 then MaxLabelsReturned else 0) = Inr lsz0"
    by simp
  from \<open>length (size_chunks saturated_store 2) = 1\<close>
  have top: "GetTopElementType example_runtime saturated_data 10 2 = Inr [\<lparr>Label = 7, Size = 3\<rparr>]"
    using GetTopElementType_eq [OF _ h1 io mk, of 2] scan_entries_saturated_store by simp
  have "(0::int) + (if (0::int) = 0 then MaxLabelsReturned else 0) \<le> MaxInt64"
    by (simp add: MaxLabelsReturned_def MaxInt64_def)
  from GetLabelsByThreshold_page [OF _ _ this h1 io scan_entries_saturated_store mk', of 0]
  have thr: "GetLabelsByThreshold example_runtime saturated_data 2 0 0 0 = Inr [\<lparr>Label = 7, Size = 3\<rparr>]"
    by (simp add: MaxLabelsReturned_def)
  from scans_skip_MaxUint32_count [OF h1 h2] top
  have "5 \<notin> Label ` set [\<lparr>Label = 7, Size = 3\<rparr>]"
    by blast
  with h1 k top thr show ?thesis by simp
qed

lemma inROI_calls_checked:
  assumes "StaticROI d \<noteq> []" "roiChecked d" "iROI d = None"
  shows "inROI_calls ImmutableBySpec d loads es = (replicate (length es) False, d, loads)"
  using assms by (induction es) (simp_all add: inROI_def)

text \<open>
  Claim C10. With a static ROI configured and its load failing at the first use, the first
  call of \<^verbatim>\<open>inROI\<close> and every later one return false, whatever the position, and the load
  has been attempted once after any number of calls, even if later attempts would
  succeed. With no static ROI, \<^verbatim>\<open>inROI\<close> returns true for every position and loads nothing.
\<close>

theorem inROI_failed_load:
  "(StaticROI d \<noteq> [] \<and> \<not> roiChecked d \<and> iROI d = None \<and>
    ImmutableBySpec loads (StaticROI d) = Inl err \<longrightarrow>
      inROI_calls ImmutableBySpec d loads (e # es) =
        (replicate (Suc (length es)) False, d\<lparr>roiChecked := True\<rparr>, Suc loads)) \<and>
   (StaticROI d = [] \<longrightarrow> inROI ImmutableBySpec d loads e = (True, d, loads))"
proof (intro conjI impI)
  assume a: "StaticROI d \<noteq> [] \<and> \<not> roiChecked d \<and> iROI d = None \<and>
    ImmutableBySpec loads (StaticROI d) = Inl err"
  then have first: "inROI ImmutableBySpec d loads e = (False, d\<lparr>roiChecked := True\<rparr>, Suc loads)"
    by (simp add: inROI_def)
  from a have "inROI_calls ImmutableBySpec (d\<lparr>roiChecked := True\<rparr>) (Suc loads) es =
      (replicate (length es) False, d\<lparr>roiChecked := True\<rparr>, Suc loads)"
    by (intro inROI_calls_checked) simp_all
  with first show "inROI_calls ImmutableBySpec d loads (e # es) =
      (replicate (Suc (length es)) False, d\<lparr>roiChecked := True\<rparr>, Suc loads)"
    by simp
next
  assume "StaticROI d = []"
  then show "inROI ImmutableBySpec d loads e = (True, d, loads)"
    by (simp add: inROI_def)
qed

theorem inROI_failed_load_witness:
  "StaticROI roi_data \<noteq> [] \<and> \<not> roiChecked roi_data \<and> iROI roi_data = None \<and>
   failing_once 0 (StaticROI roi_data) = Inl (RoiError ''myroi,3f8c'') \<and>
   failing_once 1 (StaticROI roi_data) \<noteq> Inl (RoiError ''myroi,3f8c'') \<and>
   inROI_calls failing_once roi_data 0 [example_elem 1, example_elem 2, example_elem 3] =
     ([False, False, False], roi_data\<lparr>roiChecked := True\<rparr>, 1) \<and>
   StaticROI example_data = [] \<and>
   inROI failing_once example_data 0 (example_elem 1) = (True, example_data, 0)"
proof -
  have h: "StaticROI roi_data \<noteq> [] \<and> \<not> roiChecked roi_data \<and> iROI roi_data = None \<and>
      failing_once 0 (StaticROI roi_data) = Inl (RoiError ''myroi,3f8c'')"
    by (simp add: roi_data_def failing_once_def)
  have g: "StaticROI example_data = []"
    by (simp add: example_data_def)
  have l: "failing_once 1 (StaticROI roi_data) \<noteq> Inl (RoiError ''myroi,3f8c'')"
    by (simp add: failing_once_def)
  note t = inROI_failed_load [of roi_data failing_once 0 "RoiError ''myroi,3f8c''" "example_elem 1"
      "[example_elem 2, example_elem 3]"]
  note u = inROI_failed_load [of example_data failing_once 0 _ "example_elem 1"]
  from t h have "inROI_calls failing_once roi_data 0 [example_elem 1, example_elem 2, example_elem 3] =
     ([False, False, False], roi_data\<lparr>roiChecked := True\<rparr>, 1)"
    by simp
  moreover from u g have "inROI failing_once example_data 0 (example_elem 1) = (True, example_data, 0)"
    by simp
  ultimately show ?thesis using h g l by simp
qed

lemmas example_eval = example_backend_def nolog_backend_def example_env_def example_os_def
  store_config_def leveldb_NewStore_def filelog_NewStore_def newWriteLogs_def parseConfig_def
  writeLogs_Store_def writeLogs_String_def writeLogs_Equal_def NewStore_def

lemmas Initialize_eval = Initialize_def Initialize_defaults_def Initialize_assign_def
  Initialize_graph_def open_store_def assign_store_def assign_log_def zero_vars_def
  zero_manager_def assignedStoreByType_def GetDataSpecifier_def strings_Trim_def

lemma nolog_init:
  "case Initialize example_env nolog_backend zero_manager of (m, created, err) \<Rightarrow>
     is_setup m \<and> err = None \<and> defaultLog m = None \<and> instanceLog m = Map.empty \<and> datatypeLog m = Map.empty"
  by (simp add: Initialize_eval example_eval Let_def)

text \<open>
  Claim C8. Once the manager is set up, for a data instance with no log of its own, of a
  datatype with no log of its own, and with no default log configured,
  \<^verbatim>\<open>GetAssignedLog\<close> returns a nil write log and a nil error.
\<close>

theorem GetAssignedLog_no_default:
  assumes "is_setup manager"
    and "instanceLog manager (GetDataSpecifier dataname root) = None"
    and "datatypeLog manager typename = None"
    and "defaultLog manager = None"
  shows "GetAssignedLog manager dataname root typename = Inr None"
  using assms by (simp add: GetAssignedLog_def assignedLogByType_def)

theorem GetAssignedLog_no_default_witness:
  "snd (snd (Initialize example_env nolog_backend zero_manager)) = None \<and>
   is_setup (fst (Initialize example_env nolog_backend zero_manager)) \<and>
   defaultLog (fst (Initialize example_env nolog_backend zero_manager)) = None \<and>
   GetAssignedLog (fst (Initialize example_env nolog_backend zero_manager))
     ''grayscale'' ''99ef'' ''uint8blk'' = Inr None"
proof -
  let ?m = "fst (Initialize example_env nolog_backend zero_manager)"
  from nolog_init have h: "is_setup ?m" "instanceLog ?m (GetDataSpecifier ''grayscale'' ''99ef'') = None"
    "datatypeLog ?m ''uint8blk'' = None" "defaultLog ?m = None"
    and ok: "snd (snd (Initialize example_env nolog_backend zero_manager)) = None"
    by (auto split: prod.splits)
  from GetAssignedLog_no_default [OF h] h ok show ?thesis by simp
qed

lemma GetAssignedStore_eq:
  assumes "is_setup manager"
  shows "GetAssignedStore env manager dataname root typename =
     Inr (let store = (case instanceStore manager (GetDataSpecifier dataname root) of
                         Some s \<Rightarrow> Some s
                       | None \<Rightarrow>
                           (case datatypeStore manager typename of
                              Some s \<Rightarrow> Some s
                            | None \<Rightarrow> defaultKV manager))
          in if GetDataSpecifier dataname root \<in> supported (gcache manager)
             then fst (wrapGroupcache env store (cache (gcache manager)))
             else store)"
  using assms
  by (simp add: GetAssignedStore_def assignedStoreByType_def Let_def split: option.splits)

lemma range_loop_invariant:
  assumes "range_loop body xs s = (s', e)" "P s"
    and "\<And>k v t t' e'. P t \<Longrightarrow> body k v t = (t', e') \<Longrightarrow> P t'"
  shows "P s'"
  using assms(1,2)
proof (induction xs arbitrary: s)
  case Nil
  then show ?case by simp
next
  case (Cons kv kvs)
  obtain t e' where b: "body (fst kv) (snd kv) s = (t, e')" by (metis surj_pair)
  from assms(3) [OF Cons.prems(2) b] have t: "P t" .
  show ?case
  proof (cases e')
    case None
    with Cons.prems(1) b have "range_loop body kvs t = (s', e)" by simp
    from Cons.IH [OF this t] show ?thesis .
  next
    case (Some err)
    with Cons.prems(1) b t show ?thesis by simp
  qed
qed

lemma open_store_step:
  assumes "open_store env backend a cfg (m, v) = ((m', v'), e)"
  shows "is_setup m' = is_setup m \<and>
         ((gotDefault v \<longrightarrow> defaultKV m \<noteq> None) \<longrightarrow> (gotDefault v' \<longrightarrow> defaultKV m' \<noteq> None)) \<and>
         (e = None \<longrightarrow> lastStore v' \<noteq> None)"
  using assms
  by (auto simp add: open_store_def Let_def split: option.splits sum.splits prod.splits if_splits)

lemma open_stores_setup:
  assumes "range_loop (open_store env backend) xs (m, v) = ((m', v'), e)"
  shows "is_setup m' = is_setup m"
  using range_loop_invariant [OF assms, of "\<lambda>st. is_setup (fst st) = is_setup m"] open_store_step
  by (metis (mono_tags, lifting) fst_conv prod.collapse)

lemma open_stores_default:
  assumes "range_loop (open_store env backend) xs (m, v) = ((m', v'), e)"
    and "gotDefault v \<longrightarrow> defaultKV m \<noteq> None"
  shows "gotDefault v' \<longrightarrow> defaultKV m' \<noteq> None"
proof -
  have "gotDefault (snd (m', v')) \<longrightarrow> defaultKV (fst (m', v')) \<noteq> None"
  proof (rule range_loop_invariant [OF assms(1), of "\<lambda>st. gotDefault (snd st) \<longrightarrow> defaultKV (fst st) \<noteq> None"])
    show "gotDefault (snd (m, v)) \<longrightarrow> defaultKV (fst (m, v)) \<noteq> None" using assms(2) by simp
  next
    fix k c t t' e'
    assume "gotDefault (snd t) \<longrightarrow> defaultKV (fst t) \<noteq> None" "open_store env backend k c t = (t', e')"
    then show "gotDefault (snd t') \<longrightarrow> defaultKV (fst t') \<noteq> None"
      using open_store_step [of env backend k c "fst t" "snd t" "fst t'" "snd t'" e'] by simp
  qed
  then show ?thesis by simp
qed

lemma open_stores_last:
  assumes "range_loop (open_store env backend) xs (m, v) = ((m', v'), None)" "xs \<noteq> []"
  shows "lastStore v' \<noteq> None"
  using assms
proof (induction xs arbitrary: m v)
  case Nil
  then show ?case by simp
next
  case (Cons kv kvs)
  obtain m1 v1 e1 where b: "open_store env backend (fst kv) (snd kv) (m, v) = ((m1, v1), e1)"
    by (metis surj_pair)
  with Cons.prems(1) have e1: "e1 = None" and r: "range_loop (open_store env backend) kvs (m1, v1) = ((m', v'), None)"
    by (auto split: option.splits)
  from open_store_step [OF b] e1 have l: "lastStore v1 \<noteq> None" by simp
  show ?case
  proof (cases kvs)
    case Nil
    with r l show ?thesis by simp
  next
    case (Cons kv' kvs')
    with Cons.IH [OF r] show ?thesis by simp
  qed
qed

lemma assign_store_keeps:
  "assign_store dataspec a m = (m', e) \<Longrightarrow> defaultKV m' = defaultKV m \<and> is_setup m' = is_setup m"
  by (auto simp add: assign_store_def Let_def split: option.splits if_splits)

lemma assign_log_keeps:
  "assign_log dataspec a m = (m', e) \<Longrightarrow> defaultKV m' = defaultKV m \<and> is_setup m' = is_setup m"
  by (auto simp add: assign_log_def Let_def split: option.splits if_splits)

lemma Initialize_graph_keeps:
  "Initialize_graph env m created = (m', c, e) \<Longrightarrow> defaultKV m' = defaultKV m \<and> is_setup m' = is_setup m"
  by (auto simp add: Initialize_graph_def split: sum.splits option.splits if_splits prod.splits)

lemma Initialize_assign_keeps:
  assumes "Initialize_assign env backend m created = (m', c, e)"
  shows "defaultKV m' = defaultKV m"
proof -
  let ?m0 = "m\<lparr>instanceStore := Map.empty, datatypeStore := Map.empty\<rparr>"
  obtain m1 e1 where l1: "range_loop assign_store (KVStore backend) ?m0 = (m1, e1)"
    by (metis surj_pair)
  from range_loop_invariant [OF l1, of "\<lambda>t. defaultKV t = defaultKV m"] assign_store_keeps
  have d1: "defaultKV m1 = defaultKV m" by (metis (no_types, lifting) managerT.select_convs managerT.surjective managerT.update_convs)
  let ?m1 = "m1\<lparr>instanceLog := Map.empty, datatypeLog := Map.empty\<rparr>"
  obtain m2 e2 where l2: "range_loop assign_log (LogStore backend) ?m1 = (m2, e2)"
    by (metis surj_pair)
  from range_loop_invariant [OF l2, of "\<lambda>t. defaultKV t = defaultKV m"] assign_log_keeps d1
  have d2: "defaultKV m2 = defaultKV m" by (metis (no_types, lifting) managerT.select_convs managerT.surjective managerT.update_convs)
  show ?thesis
    using assms l1 l2 d1 d2 Initialize_graph_keeps [of env "m2\<lparr>is_setup := True\<rparr>" created m' c e]
    by (auto simp add: Initialize_assign_def split: option.splits)
qed

lemma Initialize_defaults_default:
  assumes "Initialize_defaults env backend m1 v1 = (m, c, e)" "\<not> is_setup m1" "is_setup m"
    and "gotDefault v1 \<longrightarrow> defaultKV m1 \<noteq> None"
    and "length (Stores backend) = 1 \<longrightarrow> lastStore v1 \<noteq> None"
  shows "defaultKV m \<noteq> None"
proof -
  let ?ma = "if \<not> gotDefault v1 then m1\<lparr>defaultKV := lastStore v1\<rparr> else m1"
  let ?va = "if \<not> gotDefault v1 then v1\<lparr>createdDefault := lastCreated v1\<rparr> else v1"
  let ?mb = "if \<not> gotMetadata ?va then ?ma\<lparr>metadataStore := defaultKV ?ma\<rparr> else ?ma"
  let ?vb = "if \<not> gotMetadata ?va then ?va\<lparr>createdMetadata := createdDefault ?va\<rparr> else ?va"
  have go: "\<not> (\<not> gotDefault v1 \<and> length (Stores backend) \<noteq> 1)"
  proof
    assume "\<not> gotDefault v1 \<and> length (Stores backend) \<noteq> 1"
    with assms(1) have "m = m1" by (simp add: Initialize_defaults_def)
    with assms(2,3) show False by simp
  qed
  with assms(4,5) have db: "defaultKV ?mb \<noteq> None" and sb: "\<not> is_setup ?mb"
    using assms(2) by auto
  obtain gc ge where g: "setupGroupcache env (Groupcache backend) (gcache ?mb) = (gc, ge)"
    by (metis surj_pair)
  have unf: "Initialize_defaults env backend m1 v1 =
      (case ge of Some err \<Rightarrow> (?mb\<lparr>gcache := gc\<rparr>, createdMetadata ?vb, Some err)
       | None \<Rightarrow> Initialize_assign env backend (?mb\<lparr>gcache := gc\<rparr>) (createdMetadata ?vb))"
    using go g by (simp add: Initialize_defaults_def Let_def split: if_splits option.splits)
  show ?thesis
  proof (cases ge)
    case (Some err)
    with unf assms(1) have "m = ?mb\<lparr>gcache := gc\<rparr>" by simp
    with sb assms(3) show ?thesis by simp
  next
    case None
    with unf assms(1) have "Initialize_assign env backend (?mb\<lparr>gcache := gc\<rparr>) (createdMetadata ?vb) = (m, c, e)"
      by simp
    from Initialize_assign_keeps [OF this] db show ?thesis by simp
  qed
qed

lemma Initialize_setup_default:
  assumes "Initialize env backend m0 = (m, c, e)" "\<not> is_setup m0" "is_setup m"
  shows "defaultKV m \<noteq> None"
proof -
  obtain m1 v1 e1 where loop:
    "range_loop (open_store env backend) (Stores backend) (m0\<lparr>stores := []\<rparr>, zero_vars) = ((m1, v1), e1)"
    by (metis surj_pair)
  from open_stores_setup [OF loop] assms(2) have s1: "\<not> is_setup m1" by simp
  show ?thesis
  proof (cases e1)
    case (Some err)
    with loop assms(1) have "m = m1" by (simp add: Initialize_def)
    with s1 assms(3) show ?thesis by simp
  next
    case None
    with loop assms(1) have d: "Initialize_defaults env backend m1 v1 = (m, c, e)"
      by (simp add: Initialize_def)
    have g: "gotDefault v1 \<longrightarrow> defaultKV m1 \<noteq> None"
      using open_stores_default [OF loop] by (simp add: zero_vars_def)
    have l: "length (Stores backend) = 1 \<longrightarrow> lastStore v1 \<noteq> None"
    proof
      assume "length (Stores backend) = 1"
      then have "Stores backend \<noteq> []" by auto
      with open_stores_last loop None show "lastStore v1 \<noteq> None" by blast
    qed
    from Initialize_defaults_default [OF d s1 assms(3) g l] show ?thesis .
  qed
qed

lemma open_store_keeps_default:
  assumes "open_store env backend a cfg (m, v) = ((m', v'), e)" "defaultKV m \<noteq> None"
  shows "defaultKV m' \<noteq> None"
  using assms
  by (auto simp add: open_store_def Let_def split: option.splits sum.splits prod.splits if_splits)

lemma open_stores_keep_default:
  assumes "range_loop (open_store env backend) xs (m, v) = ((m', v'), e)" "defaultKV m \<noteq> None"
  shows "defaultKV m' \<noteq> None"
proof -
  have "defaultKV (fst (m', v')) \<noteq> None"
  proof (rule range_loop_invariant [OF assms(1), of "\<lambda>st. defaultKV (fst st) \<noteq> None"])
    show "defaultKV (fst (m, v)) \<noteq> None" using assms(2) by simp
  next
    fix k c t t' e'
    assume "defaultKV (fst t) \<noteq> None" "open_store env backend k c t = (t', e')"
    then show "defaultKV (fst t') \<noteq> None"
      using open_store_keeps_default [of env backend k c "fst t" "snd t" "fst t'" "snd t'" e'] by simp
  qed
  then show ?thesis by simp
qed

lemma Initialize_defaults_keeps_default:
  assumes "Initialize_defaults env backend m1 v1 = (m, c, e)" "defaultKV m1 \<noteq> None"
    and "length (Stores backend) = 1 \<longrightarrow> lastStore v1 \<noteq> None"
  shows "defaultKV m \<noteq> None"
proof (cases "\<not> gotDefault v1 \<and> length (Stores backend) \<noteq> 1")
  case True
  with assms(1) have "m = m1" by (simp add: Initialize_defaults_def)
  with assms(2) show ?thesis by simp
next
  case go: False
  let ?ma = "if \<not> gotDefault v1 then m1\<lparr>defaultKV := lastStore v1\<rparr> else m1"
  let ?va = "if \<not> gotDefault v1 then v1\<lparr>createdDefault := lastCreated v1\<rparr> else v1"
  let ?mb = "if \<not> gotMetadata ?va then ?ma\<lparr>metadataStore := defaultKV ?ma\<rparr> else ?ma"
  let ?vb = "if \<not> gotMetadata ?va then ?va\<lparr>createdMetadata := createdDefault ?va\<rparr> else ?va"
  from go assms(2,3) have db: "defaultKV ?mb \<noteq> None"
    by auto
  obtain gc ge where g: "setupGroupcache env (Groupcache backend) (gcache ?mb) = (gc, ge)"
    by (metis surj_pair)
  have unf: "Initialize_defaults env backend m1 v1 =
      (case ge of Some err \<Rightarrow> (?mb\<lparr>gcache := gc\<rparr>, createdMetadata ?vb, Some err)
       | None \<Rightarrow> Initialize_assign env backend (?mb\<lparr>gcache := gc\<rparr>) (createdMetadata ?vb))"
    using go g by (simp add: Initialize_defaults_def Let_def split: if_splits option.splits)
  show ?thesis
  proof (cases ge)
    case (Some err)
    with unf assms(1) have "m = ?mb\<lparr>gcache := gc\<rparr>" by simp
    with db show ?thesis by simp
  next
    case None
    with unf assms(1) have "Initialize_assign env backend (?mb\<lparr>gcache := gc\<rparr>) (createdMetadata ?vb) = (m, c, e)"
      by simp
    from Initialize_assign_keeps [OF this] db show ?thesis by simp
  qed
qed

lemma Initialize_keeps_default:
  assumes "Initialize env backend m0 = (m, c, e)" "defaultKV m0 \<noteq> None"
  shows "defaultKV m \<noteq> None"
proof -
  obtain m1 v1 e1 where loop:
    "range_loop (open_store env backend) (Stores backend) (m0\<lparr>stores := []\<rparr>, zero_vars) = ((m1, v1), e1)"
    by (metis surj_pair)
  from assms(2) have "defaultKV (m0\<lparr>stores := []\<rparr>) \<noteq> None" by simp
  from open_stores_keep_default [OF loop this] have d1: "defaultKV m1 \<noteq> None" .
  show ?thesis
  proof (cases e1)
    case (Some err)
    with loop assms(1) have "m = m1" by (simp add: Initialize_def)
    with d1 show ?thesis by simp
  next
    case None
    with loop assms(1) have d: "Initialize_defaults env backend m1 v1 = (m, c, e)"
      by (simp add: Initialize_def)
    have l: "length (Stores backend) = 1 \<longrightarrow> lastStore v1 \<noteq> None"
    proof
      assume "length (Stores backend) = 1"
      then have "Stores backend \<noteq> []" by auto
      with open_stores_last loop None show "lastStore v1 \<noteq> None" by blast
    qed
    from Initialize_defaults_keeps_default [OF d d1 l] show ?thesis .
  qed
qed

lemma reachable_default:
  assumes "reachable manager" "is_setup manager"
  shows "defaultKV manager \<noteq> None"
  using assms
proof (induction rule: reachable.induct)
  case reachable_zero
  then show ?case by (simp add: zero_manager_def)
next
  case (reachable_Initialize manager env backend)
  obtain m c e where i: "Initialize env backend manager = (m, c, e)"
    by (metis prod_cases3)
  with reachable_Initialize.prems have s: "is_setup m" by simp
  have "defaultKV m \<noteq> None"
  proof (cases "is_setup manager")
    case True
    from Initialize_keeps_default [OF i reachable_Initialize.IH [OF True]] show ?thesis .
  next
    case False
    from Initialize_setup_default [OF i False s] show ?thesis .
  qed
  with i show ?case by simp
next
  case (reachable_Close manager)
  then show ?case by (simp add: Close_def zero_manager_def)
qed

text \<open>
  Claim C5. The manager is in a state that the package can bring it to. Once it is set up,
  it has a default key-value store, and \<^verbatim>\<open>GetAssignedStore\<close> returns no error and resolves
  the store by the assignment of the data instance (name, root) if there is one, otherwise
  by the assignment of the datatype if there is one, otherwise it takes the default
  key-value store (for an instance with groupcache support the resolved store is then
  passed through \<^verbatim>\<open>wrapGroupcache\<close>). Whenever the manager has no default key-value store,
  the call returns an error: \<^verbatim>\<open>Initialize\<close> refuses to mark a manager set up without a
  default store, and \<^verbatim>\<open>GetAssignedStore\<close> refuses a manager that is not set up.
\<close>

theorem GetAssignedStore_resolution:
  assumes "reachable manager"
  shows "(is_setup manager \<longrightarrow>
            (\<exists>dflt. defaultKV manager = Some dflt \<and>
               GetAssignedStore env manager dataname root typename =
                 Inr (let store =
                            (case instanceStore manager (GetDataSpecifier dataname root) of
                               Some s \<Rightarrow> s
                             | None \<Rightarrow>
                                 (case datatypeStore manager typename of
                                    Some s \<Rightarrow> s
                                  | None \<Rightarrow> dflt))
                      in if GetDataSpecifier dataname root \<in> supported (gcache manager)
                         then fst (wrapGroupcache env (Some store) (cache (gcache manager)))
                         else Some store))) \<and>
         (defaultKV manager = None \<longrightarrow>
            (\<exists>err. GetAssignedStore env manager dataname root typename = Inl err))"
proof (cases "is_setup manager")
  case True
  from reachable_default [OF assms True] obtain dflt where d: "defaultKV manager = Some dflt"
    by auto
  have "GetAssignedStore env manager dataname root typename =
      Inr (let store =
                 (case instanceStore manager (GetDataSpecifier dataname root) of
                    Some s \<Rightarrow> s
                  | None \<Rightarrow>
                      (case datatypeStore manager typename of
                         Some s \<Rightarrow> s
                       | None \<Rightarrow> dflt))
           in if GetDataSpecifier dataname root \<in> supported (gcache manager)
              then fst (wrapGroupcache env (Some store) (cache (gcache manager)))
              else Some store)"
    using True d by (simp add: GetAssignedStore_eq Let_def split: option.splits)
  with d show ?thesis by simp
next
  case False
  then have "GetAssignedStore env manager dataname root typename =
      Inl (NotInitialized (dataname @ ''/'' @ root))"
    by (simp add: GetAssignedStore_def)
  with False show ?thesis by simp
qed

text \<open>
  The lookup itself does not check for a default store: on a manager value that is marked
  set up and has none, which no sequence of calls produces, it returns a nil store and
  a nil error.
\<close>

lemma GetAssignedStore_nil_default:
  "GetAssignedStore example_env (zero_manager\<lparr>is_setup := True\<rparr>) ''grayscale'' ''99ef'' ''uint8blk''
     = Inr None"
  by (simp add: GetAssignedStore_def assignedStoreByType_def zero_manager_def GetDataSpecifier_def)

lemma example_init:
  "case Initialize example_env example_backend zero_manager of (m, created, err) \<Rightarrow>
     is_setup m \<and> err = None \<and>
     instanceStore m (''grayscale'', ''99ef'') = map_of (stores m) ''ssd'' \<and>
     instanceStore m (''labels'', ''99ef'') = None \<and>
     datatypeStore m ''labelblk'' = map_of (stores m) ''ssd'' \<and>
     datatypeStore m ''uint8blk'' = None \<and>
     defaultKV m = map_of (stores m) ''raid6'' \<and>
     map_of (stores m) ''ssd'' \<noteq> None \<and> map_of (stores m) ''raid6'' \<noteq> None \<and>
     supported (gcache m) = {}"
  by (simp add: Initialize_eval example_eval Let_def)

theorem GetAssignedStore_resolution_witness:
  "reachable (fst (Initialize example_env example_backend zero_manager)) \<and>
   is_setup (fst (Initialize example_env example_backend zero_manager)) \<and>
   GetAssignedStore example_env (fst (Initialize example_env example_backend zero_manager))
     ''grayscale'' ''99ef'' ''uint8blk'' =
     Inr (map_of (stores (fst (Initialize example_env example_backend zero_manager))) ''ssd'') \<and>
   GetAssignedStore example_env (fst (Initialize example_env example_backend zero_manager))
     ''labels'' ''99ef'' ''labelblk'' =
     Inr (map_of (stores (fst (Initialize example_env example_backend zero_manager))) ''ssd'') \<and>
   GetAssignedStore example_env (fst (Initialize example_env example_backend zero_manager))
     ''labels'' ''99ef'' ''uint8blk'' =
     Inr (map_of (stores (fst (Initialize example_env example_backend zero_manager))) ''raid6'') \<and>
   reachable zero_manager \<and> defaultKV zero_manager = None \<and>
   GetAssignedStore example_env zero_manager ''labels'' ''99ef'' ''uint8blk'' =
     Inl (NotInitialized ''labels/99ef'')"
proof -
  let ?m = "fst (Initialize example_env example_backend zero_manager)"
  have r: "reachable ?m"
    by (rule reachable_Initialize [OF reachable_zero])
  from example_init have h: "is_setup ?m"
    and i: "instanceStore ?m (''grayscale'', ''99ef'') = map_of (stores ?m) ''ssd''"
      "instanceStore ?m (''labels'', ''99ef'') = None"
      "datatypeStore ?m ''labelblk'' = map_of (stores ?m) ''ssd''"
      "datatypeStore ?m ''uint8blk'' = None"
      "defaultKV ?m = map_of (stores ?m) ''raid6''"
      "map_of (stores ?m) ''ssd'' \<noteq> None" "map_of (stores ?m) ''raid6'' \<noteq> None"
      "supported (gcache ?m) = {}"
    by (auto split: prod.splits)
  from i obtain ssd raid6 where st: "map_of (stores ?m) ''ssd'' = Some ssd"
    "map_of (stores ?m) ''raid6'' = Some raid6"
    by auto
  note t = GetAssignedStore_resolution [OF r, of example_env]
  have "GetAssignedStore example_env ?m ''grayscale'' ''99ef'' ''uint8blk'' = Inr (map_of (stores ?m) ''ssd'')"
    using t [where dataname = "''grayscale''" and root = "''99ef''" and typename = "''uint8blk''"] h i st by (auto simp add: GetDataSpecifier_def)
  moreover have "GetAssignedStore example_env ?m ''labels'' ''99ef'' ''labelblk'' = Inr (map_of (stores ?m) ''ssd'')"
    using t [where dataname = "''labels''" and root = "''99ef''" and typename = "''labelblk''"] h i st by (auto simp add: GetDataSpecifier_def)
  moreover have "GetAssignedStore example_env ?m ''labels'' ''99ef'' ''uint8blk'' = Inr (map_of (stores ?m) ''raid6'')"
    using t [where dataname = "''labels''" and root = "''99ef''" and typename = "''uint8blk''"] h i st by (auto simp add: GetDataSpecifier_def)
  moreover have "defaultKV zero_manager = None"
    by (simp add: zero_manager_def)
  moreover have "GetAssignedStore example_env zero_manager ''labels'' ''99ef'' ''uint8blk'' =
      Inl (NotInitialized ''labels/99ef'')"
    by (simp add: GetAssignedStore_def zero_manager_def)
  ultimately show ?thesis using h r reachable_zero by simp
qed









lemma writeLogs_Equal_iff:
  assumes "filelog_NewStore os ca = Inr (sa, cr)"
  shows "store_Equal sa cfg =
     (\<exists>path t t'. parseConfig os ca = Inr (path, t) \<and> parseConfig os cfg = Inr (path, t'))"
  using assms
  by (auto simp add: filelog_NewStore_def newWriteLogs_def writeLogs_Store_def writeLogs_Equal_def
      split: sum.splits prod.splits if_splits option.splits)






lemma length_LittleEndian_PutUint16 [simp]: "length (LittleEndian_PutUint16 v) = 2"
  by (simp add: LittleEndian_PutUint16_def)

lemma length_LittleEndian_PutUint32 [simp]: "length (LittleEndian_PutUint32 v) = 4"
  by (simp add: LittleEndian_PutUint32_def)

lemma LittleEndian_Uint16_PutUint16: "LittleEndian_Uint16 (LittleEndian_PutUint16 v) = v"
proof -
  have "unat v < 65536" using unsigned_less [of v, where 'a = nat] by simp
  then have "le_nat (LittleEndian_PutUint16 v) = unat v"
    unfolding LittleEndian_PutUint16_def le_nat_le_bytes by simp
  then show ?thesis by (simp add: LittleEndian_Uint16_def)
qed

lemma LittleEndian_Uint32_PutUint32: "LittleEndian_Uint32 (LittleEndian_PutUint32 v) = v"
proof -
  have "le_nat (LittleEndian_PutUint32 v) = unat v"
    unfolding LittleEndian_PutUint32_def le_nat_le_bytes using unat_uint32_less [of v] by simp
  then show ?thesis by (simp add: LittleEndian_Uint32_def)
qed

lemma readHeader_log_record:
  "readHeader (log_record t p @ rest) = Inr (t, word_of_nat (length p), p @ rest)"
proof -
  have "LittleEndian_PutUint16 t \<noteq> []"
    by (simp add: LittleEndian_PutUint16_def)
  then show ?thesis
    by (simp add: readHeader_def log_record_def Let_def LittleEndian_Uint16_PutUint16
        LittleEndian_Uint32_PutUint32)
qed

lemma unat_length_payload:
  "length p < 2 ^ 32 \<Longrightarrow> unat (word_of_nat (length p) :: uint32) = length p"
  by (simp add: unat_of_nat)

lemma read_log_Nil: "read_log [] = Inr []"
  by (simp add: read_log.simps readHeader_def)

lemma read_log_record:
  assumes "length p < 2 ^ 32"
  shows "read_log (log_record t p @ rest) =
     (case read_log rest of
        Inl err \<Rightarrow> Inl err
      | Inr recs \<Rightarrow> Inr ((t, word_of_nat (length p), p) # recs))"
  using unat_length_payload [OF assms]
  by (subst read_log.simps) (simp add: readHeader_log_record split: sum.splits)

lemma read_log_records:
  assumes "list_all (\<lambda>r. length (snd r) < 2 ^ 32) recs"
  shows "read_log (concat (map (\<lambda>r. log_record (fst r) (snd r)) recs)) =
     Inr (map (\<lambda>r. (fst r, word_of_nat (length (snd r)), snd r)) recs)"
  using assms
  by (induction recs) (simp_all add: read_log_Nil read_log_record)

lemma file_Write_None: "file_Write f b = (f', None) \<Longrightarrow> file_data f' = file_data f @ b"
  by (auto simp add: file_Write_def split: if_splits)

lemma writeHeader_None:
  "writeHeader f t p = (f', None) \<Longrightarrow>
   file_data f' = file_data f @ LittleEndian_PutUint16 t @ LittleEndian_PutUint32 (word_of_nat (length p))"
  by (auto simp add: writeHeader_def Let_def dest: file_Write_None)

lemma getLogFile_files:
  "getLogFile os wlogs dataID version = (wlogs1, Inr fl) \<Longrightarrow>
   files wlogs1 (log_key dataID version) = Some fl"
  by (auto simp add: getLogFile_def Let_def split: option.splits sum.splits)

lemma getLogFile_open:
  "files wlogs (log_key dataID version) = Some fl \<Longrightarrow>
   getLogFile os wlogs dataID version = (wlogs, Inr fl)"
  by (simp add: getLogFile_def)

lemma Append_None:
  assumes "Append os wlogs t dataID version p = (wlogs', None)"
  shows "\<exists>fl. files wlogs' (log_key dataID version) = Some fl \<and>
           file_data fl = opened_data os wlogs dataID version @ log_record t p"
proof -
  obtain wlogs1 r where g: "getLogFile os wlogs dataID version = (wlogs1, r)"
    by (metis surj_pair)
  with assms obtain fl0 where r: "r = Inr fl0"
    by (cases r) (auto simp add: Append_def)
  obtain fl1 e1 where h: "writeHeader fl0 t p = (fl1, e1)" by (metis surj_pair)
  with assms g r have e1: "e1 = None"
    by (cases e1) (auto simp add: Append_def)
  obtain fl2 e2 where w: "file_Write fl1 p = (fl2, e2)" by (metis surj_pair)
  with assms g r h e1 have e2: "e2 = None"
    and f: "wlogs' = wlogs1\<lparr>files := (files wlogs1)(log_key dataID version \<mapsto> fl2)\<rparr>"
    by (cases e2; auto simp add: Append_def)+
  from writeHeader_None [OF h [unfolded e1]] file_Write_None [OF w [unfolded e2]]
  have "file_data fl2 = file_data fl0 @ log_record t p"
    by (simp add: log_record_def)
  with f g r show ?thesis by (simp add: opened_data_def)
qed

lemma Append_calls_None:
  assumes "Append_calls os wlogs dataID version recs = (wlogs', errs)"
    and "list_all (\<lambda>e. e = None) errs" "recs \<noteq> []"
  shows "\<exists>fl. files wlogs' (log_key dataID version) = Some fl \<and>
           file_data fl = opened_data os wlogs dataID version @
             concat (map (\<lambda>r. log_record (fst r) (snd r)) recs)"
  using assms
proof (induction recs arbitrary: wlogs wlogs' errs)
  case Nil
  then show ?case by simp
next
  case (Cons r rs)
  obtain wlogs1 e1 where a: "Append os wlogs (fst r) dataID version (snd r) = (wlogs1, e1)"
    by (metis surj_pair)
  obtain wlogs2 es where c: "Append_calls os wlogs1 dataID version rs = (wlogs2, es)"
    by (metis surj_pair)
  from Cons.prems(1,2) a c have e1: "e1 = None" and es: "list_all (\<lambda>e. e = None) es"
    and w: "wlogs' = wlogs2"
    by auto
  from Append_None [OF a [unfolded e1]] obtain fl1 where
    fl1: "files wlogs1 (log_key dataID version) = Some fl1"
      "file_data fl1 = opened_data os wlogs dataID version @ log_record (fst r) (snd r)"
    by blast
  show ?case
  proof (cases rs)
    case Nil
    with c fl1 w show ?thesis by simp
  next
    case (Cons r' rs')
    then have "rs \<noteq> []" by simp
    from Cons.IH [OF c es this] obtain fl where
      "files wlogs2 (log_key dataID version) = Some fl"
      "file_data fl = opened_data os wlogs1 dataID version @
         concat (map (\<lambda>r. log_record (fst r) (snd r)) rs)"
      by blast
    moreover have "opened_data os wlogs1 dataID version = file_data fl1"
      by (simp add: opened_data_def getLogFile_open [OF fl1(1)])
    ultimately show ?thesis using fl1(2) w by simp
  qed
qed

text \<open>
  Claim C6, as amended. After a sequence of successful \<^verbatim>\<open>Append\<close> calls on one
  (dataID, version), with payloads of fewer than \<open>2^32\<close> bytes, on a log file that holds
  nothing when the first of the calls gets it, the file contains exactly the records in
  append order, each the little-endian \<^verbatim>\<open>uint16\<close> entry type, the little-endian
  \<^verbatim>\<open>uint32\<close> length of the payload and the payload; reading the file back, header by
  header, gives the appended sequence of (type, length, payload), every length being the
  length of its payload.
\<close>

theorem Append_round_trip:
  assumes "Append_calls os wlogs dataID version recs = (wlogs', errs)"
    and "list_all (\<lambda>e. e = None) errs" and "recs \<noteq> []"
    and "list_all (\<lambda>r. length (snd r) < 2 ^ 32) recs"
    and "opened_data os wlogs dataID version = []"
  shows "\<exists>fl. files wlogs' (log_key dataID version) = Some fl \<and>
           file_data fl = concat (map (\<lambda>r. log_record (fst r) (snd r)) recs) \<and>
           read_log (file_data fl) =
             Inr (map (\<lambda>r. (fst r, word_of_nat (length (snd r)), snd r)) recs) \<and>
           list_all (\<lambda>r. unat (word_of_nat (length (snd r)) :: uint32) = length (snd r)) recs"
proof -
  from assms(4) have u: "list_all (\<lambda>r. unat (word_of_nat (length (snd r)) :: uint32) = length (snd r)) recs"
    by (induction recs) (simp_all add: unat_length_payload)
  from Append_calls_None [OF assms(1-3)] assms(5) obtain fl where
    fl: "files wlogs' (log_key dataID version) = Some fl"
      "file_data fl = concat (map (\<lambda>r. log_record (fst r) (snd r)) recs)"
    by auto
  from fl(2) read_log_records [OF assms(4)]
  have "read_log (file_data fl) = Inr (map (\<lambda>r. (fst r, word_of_nat (length (snd r)), snd r)) recs)"
    by simp
  with fl u show ?thesis by blast
qed

lemma length_huge_payload: "length huge_payload = 4294967296"
  by (simp only: huge_payload_def length_replicate) simp

lemmas Append_eval = Append_def getLogFile_def writeHeader_def file_Write_def log_key_def
  LittleEndian_PutUint16_def LittleEndian_PutUint32_def Let_def

theorem Append_round_trip_witness:
  "snd (Append_calls example_os example_logs ''d1'' ''v1'' [(1, [10, 20]), (2, [])]) = [None, None] \<and>
   opened_data example_os example_logs ''d1'' ''v1'' = [] \<and>
   map_option file_data
     (files (fst (Append_calls example_os example_logs ''d1'' ''v1'' [(1, [10, 20]), (2, [])]))
        (log_key ''d1'' ''v1'')) = Some [1, 0, 2, 0, 0, 0, 10, 20, 2, 0, 0, 0, 0, 0] \<and>
   read_log [1, 0, 2, 0, 0, 0, 10, 20, 2, 0, 0, 0, 0, 0] = Inr [(1, 2, [10, 20]), (2, 0, [])]"
proof -
  let ?recs = "[(1, [10, 20]), (2, [])] :: (uint16 \<times> bytes) list"
  obtain wlogs' errs where c: "Append_calls example_os example_logs ''d1'' ''v1'' ?recs = (wlogs', errs)"
    by (metis surj_pair)
  then have e: "errs = [None, None]"
    by (simp add: Append_eval example_os_def example_logs_def split: prod.splits)
  then have h2: "list_all (\<lambda>e. e = None) errs" by simp
  have h3: "?recs \<noteq> []" by simp
  have h4: "list_all (\<lambda>r. length (snd r) < 2 ^ 32) ?recs" by simp
  have h5: "opened_data example_os example_logs ''d1'' ''v1'' = []"
    by (simp add: opened_data_def getLogFile_def example_os_def example_logs_def Let_def)
  have r: "concat (map (\<lambda>r. log_record (fst r) (snd r)) ?recs) = [1, 0, 2, 0, 0, 0, 10, 20, 2, 0, 0, 0, 0, 0]"
    by (simp add: log_record_def LittleEndian_PutUint16_def LittleEndian_PutUint32_def)
  from Append_round_trip [OF c h2 h3 h4 h5] obtain fl where
    "files wlogs' (log_key ''d1'' ''v1'') = Some fl"
    "file_data fl = [1, 0, 2, 0, 0, 0, 10, 20, 2, 0, 0, 0, 0, 0]"
    "read_log (file_data fl) = Inr [(1, 2, [10, 20]), (2, 0, [])]"
    unfolding r by auto
  with c e h5 show ?thesis by simp
qed

text \<open>
  The claim as stated fails in two ways. For a payload of \<open>2^32\<close> bytes the append succeeds,
  the length field of the record is 0, and reading the file back does not give the
  appended record. And on a log file that already holds a record when the first call
  opens it (the file is opened for appending), a successful append leaves a file that is
  not the appended record alone, and reading it back gives two records.
\<close>

theorem Append_huge_payload_counterexample:
  "snd (Append roomy_os example_logs 1 ''d1'' ''v1'' huge_payload) = None \<and>
   length huge_payload = 2 ^ 32 \<and>
   map_option file_data
     (files (fst (Append roomy_os example_logs 1 ''d1'' ''v1'' huge_payload)) (log_key ''d1'' ''v1''))
     = Some ([1, 0, 0, 0, 0, 0] @ huge_payload) \<and>
   readHeader ([1, 0, 0, 0, 0, 0] @ huge_payload) = Inr (1, 0, huge_payload) \<and>
   read_log ([1, 0, 0, 0, 0, 0] @ huge_payload) \<noteq>
     Inr [(1, word_of_nat (length huge_payload), huge_payload)] \<and>
   snd (Append restarted_os example_logs 2 ''d1'' ''v1'' []) = None \<and>
   map_option file_data
     (files (fst (Append restarted_os example_logs 2 ''d1'' ''v1'' [])) (log_key ''d1'' ''v1''))
     = Some [1, 0, 0, 0, 0, 0, 2, 0, 0, 0, 0, 0] \<and>
   log_record 2 [] = [2, 0, 0, 0, 0, 0] \<and>
   read_log [1, 0, 0, 0, 0, 0, 2, 0, 0, 0, 0, 0] = Inr [(1, 0, []), (2, 0, [])]"
proof -
  note len = length_huge_payload
  have ne: "huge_payload \<noteq> []" using len by auto
  have z: "(word_of_nat (length huge_payload) :: uint32) = 0"
    by (simp add: len)
  have a: "Append roomy_os example_logs 1 ''d1'' ''v1'' huge_payload =
      (example_logs\<lparr>files := [''d1-v1'' \<mapsto>
         \<lparr>file_name = ''/data/mutationlogs/d1-v1'', file_data = [1, 0, 0, 0, 0, 0] @ huge_payload,
          file_room = 4294967290\<rparr>]\<rparr>, None)"
    by (simp add: Append_eval roomy_os_def example_os_def example_logs_def z len)
  have h: "readHeader ([1, 0, 0, 0, 0, 0] @ huge_payload) = Inr (1, 0, huge_payload)"
    by (simp add: readHeader_def LittleEndian_Uint16_def LittleEndian_Uint32_def Let_def)
  have r: "read_log ([1, 0, 0, 0, 0, 0] @ huge_payload) \<noteq> Inr [(1, 0, huge_payload)]"
    using ne by (subst read_log.simps) (auto simp add: h split: sum.splits)
  have r': "read_log ([1, 0, 0, 0, 0, 0] @ huge_payload) \<noteq>
      Inr [(1, word_of_nat (length huge_payload), huge_payload)]"
    unfolding z by (rule r)
  from a have c1: "snd (Append roomy_os example_logs 1 ''d1'' ''v1'' huge_payload) = None"
    by simp
  from len have c2: "length huge_payload = 2 ^ 32"
    by simp
  from a have c3: "map_option file_data
      (files (fst (Append roomy_os example_logs 1 ''d1'' ''v1'' huge_payload)) (log_key ''d1'' ''v1''))
      = Some ([1, 0, 0, 0, 0, 0] @ huge_payload)"
    by (simp add: log_key_def)
  have b: "Append restarted_os example_logs 2 ''d1'' ''v1'' [] =
      (example_logs\<lparr>files := [''d1-v1'' \<mapsto>
         \<lparr>file_name = ''/data/mutationlogs/d1-v1'', file_data = [1, 0, 0, 0, 0, 0, 2, 0, 0, 0, 0, 0],
          file_room = 994\<rparr>]\<rparr>, None)"
    by (simp add: Append_eval restarted_os_def example_os_def example_logs_def)
  from b have c4: "snd (Append restarted_os example_logs 2 ''d1'' ''v1'' []) = None"
    by simp
  from b have c5: "map_option file_data
      (files (fst (Append restarted_os example_logs 2 ''d1'' ''v1'' [])) (log_key ''d1'' ''v1''))
      = Some [1, 0, 0, 0, 0, 0, 2, 0, 0, 0, 0, 0]"
    by (simp add: log_key_def)
  have c6: "log_record 2 [] = [2, 0, 0, 0, 0, 0]"
    by (simp add: log_record_def LittleEndian_PutUint16_def LittleEndian_PutUint32_def)
  have "read_log ([1, 0, 0, 0, 0, 0] @ ([2, 0, 0, 0, 0, 0] @ [])) = Inr [(1, 0, []), (2, 0, [])]"
    using read_log_record [of "[]" 1 "[2, 0, 0, 0, 0, 0]"] read_log_record [of "[]" 2 "[]"]
    by (simp add: log_record_def LittleEndian_PutUint16_def LittleEndian_PutUint32_def read_log_Nil)
  then have c7: "read_log [1, 0, 0, 0, 0, 0, 2, 0, 0, 0, 0, 0] = Inr [(1, 0, []), (2, 0, [])]"
    by simp
  show ?thesis
    by (rule conjI [OF c1 conjI [OF c2 conjI [OF c3 conjI [OF h conjI [OF r' conjI [OF c4
          conjI [OF c5 conjI [OF c6 c7]]]]]]]])
qed

end
